theory Spec2Isabelle
  imports Complex_Main "HOL-Library.Word"
begin

unbundle bit_operations_syntax

section \<open>Bytes, samples and typed-array views\<close>

text \<open>
  A \<open>Uint8Array\<close> is a list of bytes, an \<open>Int16Array\<close> a list of 16-bit words
  (read as signed with \<open>sint\<close>). The platform is little-endian, as the declared
  microphone format is: the \<open>Int16Array\<close> view of a byte buffer pairs the bytes
  low byte first.
\<close>

type_synonym byte = "8 word"
type_synonym int16 = "16 word"

text \<open>The \<open>Int16Array\<close> view over the bytes of a buffer, from its start.\<close>

fun int16View :: "byte list \<Rightarrow> int16 list" where
  "int16View (lo # hi # bs) = word_cat hi lo # int16View bs"
| "int16View _ = []"

text \<open>
  \<open>bytesToInt16Array\<close>: \<open>bytes.length & ~1\<close> clears the lowest bit of the length;
  the view holds \<open>evenLen / 2\<close> elements.
\<close>

definition bytesToInt16Array :: "byte list \<Rightarrow> int16 list" where
  "bytesToInt16Array bytes =
     (let evenLen = length bytes - length bytes mod 2
      in take (evenLen div 2) (int16View bytes))"

text \<open>The two bytes an \<open>Int16Array\<close> element occupies in its buffer.\<close>

definition int16Bytes :: "int16 \<Rightarrow> byte list" where
  "int16Bytes s = [ucast s, ucast (drop_bit 8 s)]"

section \<open>The WAV encoder\<close>

text \<open>
  \<open>DataView\<close> setters with \<open>littleEndian = true\<close>. The value is reduced modulo
  \<open>2 ^ 32\<close> (\<open>2 ^ 16\<close>, \<open>2 ^ 8\<close>) as \<open>ToUint32\<close> does. All offsets \<open>writeWav\<close>
  uses lie inside the first 44 bytes of a buffer of at least 44 bytes, so the
  \<open>RangeError\<close> of an out-of-range write cannot occur there.
\<close>

definition toUint32 :: "int \<Rightarrow> nat" where
  "toUint32 v = nat (v mod 2 ^ 32)"

definition setUint8 :: "nat \<Rightarrow> nat \<Rightarrow> byte list \<Rightarrow> byte list" where
  "setUint8 off v view = view[off := of_nat v]"

definition setUint16 :: "nat \<Rightarrow> int \<Rightarrow> byte list \<Rightarrow> byte list" where
  "setUint16 off v view =
     (let u = nat (v mod 2 ^ 16)
      in view[off := of_nat (u mod 256), off + 1 := of_nat (u div 256)])"

definition setUint32 :: "nat \<Rightarrow> int \<Rightarrow> byte list \<Rightarrow> byte list" where
  "setUint32 off v view =
     (let u = toUint32 v
      in view[off := of_nat (u mod 256), off + 1 := of_nat (u div 256 mod 256),
              off + 2 := of_nat (u div 65536 mod 256), off + 3 := of_nat (u div 16777216)])"

fun writeString :: "nat \<Rightarrow> string \<Rightarrow> byte list \<Rightarrow> byte list" where
  "writeString offset [] view = view"
| "writeString offset (c # str) view =
     writeString (offset + 1) str (setUint8 offset (of_char c) view)"

text \<open>
  \<open>writeWav\<close>: a zeroed buffer of \<open>44 + dataSize\<close> bytes, the header fields written
  in the source's order, then \<open>out.set(payload, 44)\<close> with the raw bytes of the samples.
\<close>

definition writeWav :: "int16 list \<Rightarrow> int \<Rightarrow> byte list" where
  "writeWav int16 sampleRate =
     (let numChannels = 1;
          bytesPerSample = 2;
          dataSize = int (length int16) * bytesPerSample;
          buffer = replicate (44 + nat dataSize) 0;
          view = writeString 0 ''RIFF'' buffer;
          view = setUint32 4 (36 + dataSize) view;
          view = writeString 8 ''WAVE'' view;
          view = writeString 12 ''fmt '' view;
          view = setUint32 16 16 view;
          view = setUint16 20 1 view;
          view = setUint16 22 numChannels view;
          view = setUint32 24 sampleRate view;
          view = setUint32 28 (sampleRate * numChannels * bytesPerSample) view;
          view = setUint16 32 (numChannels * bytesPerSample) view;
          view = setUint16 34 (8 * bytesPerSample) view;
          view = writeString 36 ''data'' view;
          view = setUint32 40 dataSize view;
          payload = concat (map int16Bytes int16)
      in take 44 view @ payload @ drop (44 + length payload) view)"

text \<open>Readers used to state what the header holds.\<close>

definition getUint32 :: "nat \<Rightarrow> byte list \<Rightarrow> nat" where
  "getUint32 off view =
     unat (view ! off) + 256 * unat (view ! (off + 1)) + 65536 * unat (view ! (off + 2))
       + 16777216 * unat (view ! (off + 3))"

definition getUint16 :: "nat \<Rightarrow> byte list \<Rightarrow> nat" where
  "getUint16 off view = unat (view ! off) + 256 * unat (view ! (off + 1))"

definition charCodes :: "string \<Rightarrow> byte list" where
  "charCodes str = map (\<lambda>c. of_nat (of_char c)) str"

text \<open>The 44 header bytes in closed form, for the proofs.\<close>

definition le32 :: "nat \<Rightarrow> byte list" where
  "le32 u = [of_nat (u mod 256), of_nat (u div 256 mod 256),
             of_nat (u div 65536 mod 256), of_nat (u div 16777216)]"

definition wavHeader :: "nat \<Rightarrow> int \<Rightarrow> byte list" where
  "wavHeader n sampleRate =
     [82, 73, 70, 70] @ le32 (toUint32 (36 + 2 * int n)) @
     [87, 65, 86, 69, 102, 109, 116, 32, 16, 0, 0, 0, 1, 0, 1, 0] @
     le32 (toUint32 sampleRate) @ le32 (toUint32 (sampleRate * 2)) @
     [2, 0, 16, 0, 100, 97, 116, 97] @ le32 (toUint32 (2 * int n))"

section \<open>The PCM framer\<close>

datatype error =
    AlreadyRunning | BusyRunning | MkdirFailed | ImportFailed | ModelNotFound
  | ModelLoadFailed | SpawnFailed | NotInitialized | InferenceFailed | WriteFailed

text \<open>
  The framing variables of \<open>start\<close>: the odd byte carried from the previous read and
  the samples waiting to be framed.
\<close>

record framer =
  leftover :: "byte list"
  sampleQueue :: "int16 list"

definition framer0 :: framer where
  "framer0 = \<lparr>leftover = [], sampleQueue = []\<rparr>"

text \<open>
  The inner \<open>while (sampleQueue.length >= 512)\<close> loop, over any frame handler
  \<open>processFrame\<close> working on a state \<open>'s\<close>. The handler returns \<open>Some e\<close> when it throws;
  the exception leaves the loop before the queue is advanced.
\<close>

function whileFrames ::
  "(int16 list \<Rightarrow> 's \<Rightarrow> error option \<times> 's) \<Rightarrow> int16 list \<Rightarrow> 's \<Rightarrow> error option \<times> int16 list \<times> 's"
where
  "whileFrames processFrame queue s =
     (if length queue \<ge> 512 then
        (case processFrame (take 512 queue) s of
           (Some e, s') \<Rightarrow> (Some e, queue, s')
         | (None, s') \<Rightarrow> whileFrames processFrame (drop 512 queue) s')
      else (None, queue, s))"
  by pat_completeness auto
termination
  by (relation "measure (\<lambda>(pf, q, s). length q)") auto

declare whileFrames.simps [simp del]

text \<open>The body of \<open>for await (const chunk of proc.stdout)\<close>, after the abort check.\<close>

definition onChunk ::
  "(int16 list \<Rightarrow> 's \<Rightarrow> error option \<times> 's) \<Rightarrow> byte list \<Rightarrow> framer \<Rightarrow> 's \<Rightarrow> error option \<times> framer \<times> 's"
where
  "onChunk processFrame u8 fr s =
     (let combined = leftover fr @ u8;
          evenLen = length combined - length combined mod 2;
          usable = take evenLen combined;
          leftover' = drop evenLen combined;
          samples = bytesToInt16Array usable;
          queue = (if length (sampleQueue fr) = 0 then samples else sampleQueue fr @ samples)
      in case whileFrames processFrame queue s of
           (e, queue', s') \<Rightarrow> (e, \<lparr>leftover = leftover', sampleQueue = queue'\<rparr>, s'))"

text \<open>The \<open>for await\<close> loop over the chunks of a stream, while \<open>abort\<close> is not set.\<close>

fun forAwait ::
  "(int16 list \<Rightarrow> 's \<Rightarrow> error option \<times> 's) \<Rightarrow> byte list list \<Rightarrow> framer \<Rightarrow> 's \<Rightarrow> error option \<times> framer \<times> 's"
where
  "forAwait processFrame [] fr s = (None, fr, s)"
| "forAwait processFrame (chunk # chunks) fr s =
     (case onChunk processFrame chunk fr s of
        (Some e, fr', s') \<Rightarrow> (Some e, fr', s')
      | (None, fr', s') \<Rightarrow> forAwait processFrame chunks fr' s')"

text \<open>
  The frames the framer hands to its consumer: the loop run with a handler that only
  records the frame it is given.
\<close>

definition collectFrame :: "int16 list \<Rightarrow> int16 list list \<Rightarrow> error option \<times> int16 list list" where
  "collectFrame frame acc = (None, acc @ [frame])"

definition framesEmitted :: "byte list list \<Rightarrow> int16 list list" where
  "framesEmitted chunks = snd (snd (forAwait collectFrame chunks framer0 []))"

text \<open>A handler called on a list of frames in order, up to its first exception.\<close>

fun forFrames ::
  "(int16 list \<Rightarrow> 's \<Rightarrow> error option \<times> 's) \<Rightarrow> int16 list list \<Rightarrow> 's \<Rightarrow> error option \<times> 's"
where
  "forFrames handler [] s = (None, s)"
| "forFrames handler (frame # frames) s =
     (case handler frame s of
        (Some e, s') \<Rightarrow> (Some e, s')
      | (None, s') \<Rightarrow> forFrames handler frames s')"

text \<open>Cutting a sample sequence into its complete blocks of 512, for the proofs.\<close>

function chop512 :: "'a list \<Rightarrow> 'a list list" where
  "chop512 xs = (if length xs \<ge> 512 then take 512 xs # chop512 (drop 512 xs) else [])"
  by pat_completeness auto
termination
  by (relation "measure length") auto

declare chop512.simps [simp del]

definition rest512 :: "'a list \<Rightarrow> 'a list" where
  "rest512 xs = drop (512 * (length xs div 512)) xs"

definition oddTail :: "'a list \<Rightarrow> 'a list" where
  "oddTail xs = drop (length xs - length xs mod 2) xs"

section \<open>Configuration\<close>

record VADOptions =
  rate :: int
  outDir :: string
  modelPath :: string
  speechThreshold :: real
  silenceThreshold :: real
  requiredSpeechFrames :: int
  requiredSilenceFrames :: int

definition defaultVADOptions :: VADOptions where
  "defaultVADOptions =
     \<lparr>rate = 16000,
      outDir = ''segments'',
      modelPath = ''rec/public/silero_vad_v6.onnx'',
      speechThreshold = 35 / 100,
      silenceThreshold = 5 / 100,
      requiredSpeechFrames = 2,
      requiredSilenceFrames = 20\<rparr>"

text \<open>\<open>Partial<VADOptions>\<close>: every key may be absent.\<close>

record PartialVADOptions =
  p_rate :: "int option"
  p_outDir :: "string option"
  p_modelPath :: "string option"
  p_speechThreshold :: "real option"
  p_silenceThreshold :: "real option"
  p_requiredSpeechFrames :: "int option"
  p_requiredSilenceFrames :: "int option"

definition noOptions :: PartialVADOptions where
  "noOptions =
     \<lparr>p_rate = None, p_outDir = None, p_modelPath = None, p_speechThreshold = None,
      p_silenceThreshold = None, p_requiredSpeechFrames = None,
      p_requiredSilenceFrames = None\<rparr>"

text \<open>\<open>Object.assign(opts, partial)\<close>: each key present in \<open>partial\<close> overwrites.\<close>

definition assign :: "VADOptions \<Rightarrow> PartialVADOptions \<Rightarrow> VADOptions" where
  "assign opts partial =
     \<lparr>rate = (case p_rate partial of Some v \<Rightarrow> v | None \<Rightarrow> rate opts),
      outDir = (case p_outDir partial of Some v \<Rightarrow> v | None \<Rightarrow> outDir opts),
      modelPath = (case p_modelPath partial of Some v \<Rightarrow> v | None \<Rightarrow> modelPath opts),
      speechThreshold =
        (case p_speechThreshold partial of Some v \<Rightarrow> v | None \<Rightarrow> speechThreshold opts),
      silenceThreshold =
        (case p_silenceThreshold partial of Some v \<Rightarrow> v | None \<Rightarrow> silenceThreshold opts),
      requiredSpeechFrames =
        (case p_requiredSpeechFrames partial of Some v \<Rightarrow> v
         | None \<Rightarrow> requiredSpeechFrames opts),
      requiredSilenceFrames =
        (case p_requiredSilenceFrames partial of Some v \<Rightarrow> v
         | None \<Rightarrow> requiredSilenceFrames opts)\<rparr>"

section \<open>The controller\<close>

text \<open>
  The tensors of the model hold 32-bit floats and the probabilities are JavaScript
  numbers; both are modelled by real numbers. A frame sample divided by 32768 is
  exact in either.
\<close>

type_synonym tensor = "real list"

text \<open>What \<open>session.run(feeds)\<close> does: it throws, or returns \<open>results.state\<close> and the
  first element of \<open>results.output.data\<close>, each possibly absent.\<close>

datatype runResult = RunThrows | RunResults "tensor option" "real option"

text \<open>
  The world outside the controller: whether \<open>mkdir\<close>, the import of the runtime, the
  model file, the creation of the session and the spawn of the recorder succeed, the
  model itself, the clock read by \<open>nowTag\<close> when the n-th segment of a run is flushed,
  and whether \<open>Bun.write\<close> of a file succeeds.
\<close>

record environment =
  mkdirOk :: "string \<Rightarrow> bool"
  importOk :: bool
  modelFileExists :: "string \<Rightarrow> bool"
  sessionCreateOk :: bool
  spawnOk :: bool
  sessionRun :: "tensor \<Rightarrow> real list \<Rightarrow> runResult"
  nowTag :: "nat \<Rightarrow> string"
  writeOk :: "string \<Rightarrow> byte list \<Rightarrow> bool"

text \<open>
  The variables of \<open>createVADController\<close> and of the pipeline that \<open>start\<close> creates,
  with the files written so far (path and content, oldest first). The child process
  is the source of the chunks; it is spawned with \<open>stdout: 'pipe'\<close>, so the check
  for a missing \<open>proc.stdout\<close> at the head of \<open>loop\<close> never fires.
  \<open>segmentStartTime\<close> is never read and is left out.
\<close>

record controller =
  opts :: VADOptions
  running :: bool
  abort :: bool
  segmentsSaved :: nat
  lastSegmentPath :: "string option"
  ort :: bool
  session :: bool
  stateTensor :: "tensor option"
  probBuffer :: "real list"
  framing :: framer
  isRecording :: bool
  segmentBuffers :: "int16 list list"
  speechFrames :: nat
  silenceFrames :: nat
  segmentIndex :: nat
  lastErr :: "error option"
  written :: "(string \<times> byte list) list"

definition createVADController :: "PartialVADOptions \<Rightarrow> controller" where
  "createVADController initial =
     \<lparr>opts = assign defaultVADOptions initial,
      running = False,
      abort = False,
      segmentsSaved = 0,
      lastSegmentPath = None,
      ort = False,
      session = False,
      stateTensor = None,
      probBuffer = [],
      framing = framer0,
      isRecording = False,
      segmentBuffers = [],
      speechFrames = 0,
      silenceFrames = 0,
      segmentIndex = 0,
      lastErr = None,
      written = []\<rparr>"

text \<open>Decimal digits of a number, as the template string prints \<open>segmentIndex\<close>.\<close>

function showNat :: "nat \<Rightarrow> string" where
  "showNat n =
     (if n < 10 then [''0123456789'' ! n]
      else showNat (n div 10) @ [''0123456789'' ! (n mod 10)])"
  by pat_completeness auto
termination
  by (relation "measure id") auto

declare showNat.simps [simp del]

definition segmentPath :: "environment \<Rightarrow> controller \<Rightarrow> string" where
  "segmentPath env w =
     outDir (opts w) @ ''/segment_'' @ nowTag env (segmentIndex w) @ ''_''
       @ showNat (segmentIndex w) @ ''.wav''"

text \<open>
  \<open>stopRecording\<close>. The buffers are merged in order into one array. A rejected
  \<open>Bun.write\<close> throws out of the function after \<open>isRecording\<close>, \<open>segmentBuffers\<close> and
  \<open>segmentIndex\<close> have been assigned.
\<close>

definition stopRecording :: "environment \<Rightarrow> controller \<Rightarrow> error option \<times> controller" where
  "stopRecording env w =
     (if \<not> isRecording w then (None, w)
      else
        let w = w\<lparr>isRecording := False\<rparr>;
            merged = concat (segmentBuffers w);
            w = w\<lparr>segmentBuffers := []\<rparr>;
            wav = writeWav merged (rate (opts w));
            w = w\<lparr>segmentIndex := segmentIndex w + 1\<rparr>;
            path = segmentPath env w
        in if writeOk env path wav
           then (None, w\<lparr>written := written w @ [(path, wav)],
                          segmentsSaved := segmentsSaved w + 1,
                          lastSegmentPath := Some path\<rparr>)
           else (Some WriteFailed, w))"

definition startRecording :: "controller \<Rightarrow> controller" where
  "startRecording w =
     (if isRecording w then w else w\<lparr>isRecording := True, segmentBuffers := []\<rparr>)"

definition probAvgWindow :: nat where
  "probAvgWindow = 5"

text \<open>\<open>probBuffer.push\<close>, the \<open>shift\<close> past five entries, and the mean.\<close>

definition pushProb :: "real \<Rightarrow> real list \<Rightarrow> real list" where
  "pushProb rawProb buf =
     (let buf = buf @ [rawProb] in if length buf > probAvgWindow then tl buf else buf)"

definition mean :: "real list \<Rightarrow> real" where
  "mean buf = sum_list buf / real (length buf)"

text \<open>The model input: \<open>f32[i] = frame[i] / 32768\<close>.\<close>

definition toFloat32 :: "int16 list \<Rightarrow> real list" where
  "toFloat32 frame = map (\<lambda>x. real_of_int (sint x) / 32768) frame"

text \<open>
  The two \<open>if\<close> blocks that end \<open>processFrame\<close>: the state machine fed with the
  smoothed probability \<open>prob\<close> of the frame.
\<close>

definition hysteresis ::
  "environment \<Rightarrow> int16 list \<Rightarrow> real \<Rightarrow> controller \<Rightarrow> error option \<times> controller"
where
  "hysteresis env frame prob w =
     (let w =
        (if \<not> isRecording w then
           (if prob > speechThreshold (opts w) then
              (let w = w\<lparr>speechFrames := speechFrames w + 1\<rparr>
               in if int (speechFrames w) \<ge> requiredSpeechFrames (opts w)
                  then (startRecording w)\<lparr>speechFrames := 0\<rparr>
                  else w)
            else w\<lparr>speechFrames := 0\<rparr>)
         else w)
      in if isRecording w then
           (let w = w\<lparr>segmentBuffers := segmentBuffers w @ [frame]\<rparr>
            in if prob < silenceThreshold (opts w) then
                 (let w = w\<lparr>silenceFrames := silenceFrames w + 1\<rparr>
                  in if int (silenceFrames w) \<ge> requiredSilenceFrames (opts w)
                     then stopRecording env (w\<lparr>silenceFrames := 0\<rparr>)
                     else (None, w))
               else (None, w\<lparr>silenceFrames := 0\<rparr>))
         else (None, w))"

definition processFrame ::
  "environment \<Rightarrow> int16 list \<Rightarrow> controller \<Rightarrow> error option \<times> controller"
where
  "processFrame env frame w =
     (case stateTensor w of
        None \<Rightarrow> (Some NotInitialized, w)
      | Some state \<Rightarrow>
          if \<not> session w \<or> \<not> ort w then (Some NotInitialized, w)
          else
            let f32 = toFloat32 frame
            in case sessionRun env state f32 of
                 RunThrows \<Rightarrow> (Some InferenceFailed, w)
               | RunResults state' output \<Rightarrow>
                   let w = (case state' of Some t \<Rightarrow> w\<lparr>stateTensor := Some t\<rparr> | None \<Rightarrow> w);
                       rawProb = (case output of Some p \<Rightarrow> p | None \<Rightarrow> 0);
                       w = w\<lparr>probBuffer := pushProb rawProb (probBuffer w)\<rparr>;
                       prob = mean (probBuffer w)
                   in hysteresis env frame prob w)"

text \<open>\<open>initOnnx\<close> returns at once when a session exists.\<close>

definition initOnnx :: "environment \<Rightarrow> controller \<Rightarrow> error option \<times> controller" where
  "initOnnx env w =
     (if session w then (None, w)
      else if \<not> importOk env then (Some ImportFailed, w)
      else
        let w = w\<lparr>ort := True\<rparr>
        in if \<not> modelFileExists env (modelPath (opts w)) then (Some ModelNotFound, w)
           else if \<not> sessionCreateOk env then (Some ModelLoadFailed, w)
           else (None, w\<lparr>session := True, stateTensor := Some (replicate (2 * 128) 0)\<rparr>))"

text \<open>
  \<open>start\<close>, up to the launch of the pipeline task, which then waits for the first
  chunk. The pipeline variables are those of the new closure.
\<close>

definition start :: "environment \<Rightarrow> controller \<Rightarrow> error option \<times> controller" where
  "start env w =
     (if running w then (Some AlreadyRunning, w)
      else if \<not> mkdirOk env (outDir (opts w)) then (Some MkdirFailed, w)
      else
        case initOnnx env w of
          (Some e, w) \<Rightarrow> (Some e, w)
        | (None, w) \<Rightarrow>
            let w = w\<lparr>probBuffer := [], framing := framer0, isRecording := False,
                       segmentBuffers := [], speechFrames := 0, silenceFrames := 0,
                       segmentIndex := 0, lastErr := None, abort := False\<rparr>
            in if \<not> spawnOk env then (Some SpawnFailed, w)
               else (None, w\<lparr>running := True\<rparr>))"

text \<open>The \<open>finally\<close> block of \<open>loop\<close>: an exception of the last flush is swallowed.\<close>

definition finallyBlock :: "environment \<Rightarrow> controller \<Rightarrow> controller" where
  "finallyBlock env w = snd (stopRecording env (w\<lparr>running := False\<rparr>))"

text \<open>\<open>catch (e) { lastErr = e }\<close>, then \<open>finally\<close>.\<close>

definition exitLoop :: "environment \<Rightarrow> error option \<times> framer \<times> controller \<Rightarrow> controller" where
  "exitLoop env r =
     (case r of
        (Some e, fr, w) \<Rightarrow> finallyBlock env (w\<lparr>framing := fr, lastErr := Some e\<rparr>)
      | (None, fr, w) \<Rightarrow> finallyBlock env (w\<lparr>framing := fr\<rparr>))"

text \<open>
  The pipeline task receives a chunk: one iteration of the \<open>for await\<close> loop. Without
  a running task nothing happens; with \<open>abort\<close> set the loop breaks.
\<close>

definition onData :: "environment \<Rightarrow> byte list \<Rightarrow> controller \<Rightarrow> controller" where
  "onData env chunk w =
     (if \<not> running w then w
      else if abort w then finallyBlock env w
      else
        case onChunk (processFrame env) chunk (framing w) w of
          (Some e, fr, w') \<Rightarrow> exitLoop env (Some e, fr, w')
        | (None, fr, w') \<Rightarrow> w'\<lparr>framing := fr\<rparr>)"

text \<open>The stream of the child process ends: the loop leaves through \<open>finally\<close>.\<close>

definition onEnd :: "environment \<Rightarrow> controller \<Rightarrow> controller" where
  "onEnd env w = (if \<not> running w then w else finallyBlock env w)"

text \<open>The whole pipeline task on a stream that is read to its end.\<close>

definition loop :: "environment \<Rightarrow> byte list list \<Rightarrow> controller \<Rightarrow> controller" where
  "loop env chunks w = onEnd env (fold (onData env) chunks w)"

text \<open>
  \<open>stop\<close>, invoked while the pipeline task is suspended between two frames (waiting
  for a chunk, or for the model on the next queued frame). It sets \<open>abort\<close>, kills the
  recorder and awaits the task: the task finishes the frames already queued, then
  either sees \<open>abort\<close> at the next chunk or the end of the stream, and leaves through
  \<open>finally\<close>.
\<close>

definition awaitLoop :: "environment \<Rightarrow> controller \<Rightarrow> controller" where
  "awaitLoop env w =
     (case whileFrames (processFrame env) (sampleQueue (framing w)) w of
        (e, queue, w') \<Rightarrow> exitLoop env (e, (framing w)\<lparr>sampleQueue := queue\<rparr>, w'))"

definition stop :: "environment \<Rightarrow> controller \<Rightarrow> controller" where
  "stop env w =
     (if \<not> running w then w
      else
        let w = w\<lparr>abort := True\<rparr>;
            w = awaitLoop env w
        in w\<lparr>running := False\<rparr>)"

definition update :: "PartialVADOptions \<Rightarrow> controller \<Rightarrow> error + controller" where
  "update partial w =
     (if running w then Inl BusyRunning else Inr (w\<lparr>opts := assign (opts w) partial\<rparr>))"

section \<open>Runs used to state the properties\<close>

text \<open>
  What the flush of the segment in progress in \<open>w\<close>, extended by \<open>frames\<close>, adds to
  the files: the path and content \<open>stopRecording\<close> passes to \<open>Bun.write\<close>, present
  when the write succeeds.
\<close>

definition nextPath :: "environment \<Rightarrow> controller \<Rightarrow> string" where
  "nextPath env w = segmentPath env (w\<lparr>segmentIndex := segmentIndex w + 1\<rparr>)"

definition segmentWav :: "controller \<Rightarrow> int16 list list \<Rightarrow> byte list" where
  "segmentWav w frames = writeWav (concat (segmentBuffers w @ frames)) (rate (opts w))"

definition flushOf ::
  "environment \<Rightarrow> controller \<Rightarrow> int16 list list \<Rightarrow> (string \<times> byte list) list"
where
  "flushOf env w frames =
     (if writeOk env (nextPath env w) (segmentWav w frames)
      then [(nextPath env w, segmentWav w frames)] else [])"

text \<open>The complete frames waiting in the queue.\<close>

definition queuedFrames :: "controller \<Rightarrow> int16 list list" where
  "queuedFrames w = chop512 (sampleQueue (framing w))"

text \<open>
  Files of segments with an index above \<open>n\<close>: every path is the one \<open>stopRecording\<close>
  builds for some such index.
\<close>

definition filesAfter ::
  "environment \<Rightarrow> controller \<Rightarrow> nat \<Rightarrow> (string \<times> byte list) list \<Rightarrow> bool"
where
  "filesAfter env w n files =
     list_all (\<lambda>(path, wav). \<exists>i. n < i \<and> path = segmentPath env (w\<lparr>segmentIndex := i\<rparr>)) files"

text \<open>
  How many of the given frames the task appends to the segment in progress in \<open>w\<close>
  before that segment is flushed or the frame loop ends. A frame counts when
  \<open>processFrame\<close> appended it: the recorder is still recording after it, or the frame
  confirmed the end of speech and was flushed with the segment. An exception raised
  before the append ends the count.
\<close>

fun appendedBeforeFlush :: "environment \<Rightarrow> int16 list list \<Rightarrow> controller \<Rightarrow> nat" where
  "appendedBeforeFlush env [] w = 0"
| "appendedBeforeFlush env (frame # frames) w =
     (case processFrame env frame w of
        (Some e, w') \<Rightarrow> (if isRecording w' then 0 else 1)
      | (None, w') \<Rightarrow> (if isRecording w' then Suc (appendedBeforeFlush env frames w') else 1))"

text \<open>A sequence of \<open>update\<close> calls, stopping at the first one that throws.\<close>

fun updates :: "PartialVADOptions list \<Rightarrow> controller \<Rightarrow> error + controller" where
  "updates [] w = Inr w"
| "updates (partial # rest) w =
     (case update partial w of Inl e \<Rightarrow> Inl e | Inr w' \<Rightarrow> updates rest w')"

definition setsNoThreshold :: "PartialVADOptions \<Rightarrow> bool" where
  "setsNoThreshold partial =
     (p_speechThreshold partial = None \<and> p_silenceThreshold partial = None)"

text \<open>
  The state machine run over a trace of frames paired with their smoothed
  probabilities, as successive calls of \<open>processFrame\<close> run it; an exception ends the run.
\<close>

fun runHysteresis ::
  "environment \<Rightarrow> (int16 list \<times> real) list \<Rightarrow> controller \<Rightarrow> error option \<times> controller"
where
  "runHysteresis env [] w = (None, w)"
| "runHysteresis env ((frame, prob) # trace) w =
     (case hysteresis env frame prob w of
        (Some e, w') \<Rightarrow> (Some e, w')
      | (None, w') \<Rightarrow> runHysteresis env trace w')"

definition notAbove :: "real \<Rightarrow> (int16 list \<times> real) list \<Rightarrow> bool" where
  "notAbove threshold trace = list_all (\<lambda>(frame, prob). prob \<le> threshold) trace"

section \<open>An example environment and example inputs\<close>

text \<open>
  A model that adds one to every element of the hidden state at each inference and
  answers 1 for a frame whose first sample is not zero, 0.05 otherwise; disks that
  accept every write, none, or all but the first segment of a run.
\<close>

definition countingModel :: "tensor \<Rightarrow> real list \<Rightarrow> runResult" where
  "countingModel state f32 =
     RunResults (Some (map (\<lambda>x. x + 1) state)) (Some (if hd f32 = 0 then 5 / 100 else 1))"

definition testEnv :: "(string \<Rightarrow> byte list \<Rightarrow> bool) \<Rightarrow> environment" where
  "testEnv disk =
     \<lparr>mkdirOk = (\<lambda>_. True), importOk = True, modelFileExists = (\<lambda>_. True),
      sessionCreateOk = True, spawnOk = True, sessionRun = countingModel,
      nowTag = (\<lambda>_. ''2025-01-01_00-00-00''), writeOk = disk\<rparr>"

definition diskOk :: "string \<Rightarrow> byte list \<Rightarrow> bool" where
  "diskOk path wav = True"

definition diskFull :: "string \<Rightarrow> byte list \<Rightarrow> bool" where
  "diskFull path wav = False"

definition diskFailsFirst :: "string \<Rightarrow> byte list \<Rightarrow> bool" where
  "diskFailsFirst path wav = (path \<noteq> ''segments/segment_2025-01-01_00-00-00_1.wav'')"

definition quietFrame :: "int16 list" where
  "quietFrame = replicate 512 0"

definition loudFrame :: "int16 list" where
  "loudFrame = replicate 512 257"

definition quietBytes :: "byte list" where
  "quietBytes = replicate 1024 0"

definition loudBytes :: "byte list" where
  "loudBytes = replicate 1024 1"

definition fastOptions :: PartialVADOptions where
  "fastOptions =
     noOptions\<lparr>p_speechThreshold := Some (7 / 10), p_silenceThreshold := Some (6 / 10),
       p_requiredSpeechFrames := Some 1, p_requiredSilenceFrames := Some 1\<rparr>"

text \<open>A controller in the middle of a segment, waiting for the next chunk.\<close>

definition recordingController :: controller where
  "recordingController =
     (createVADController noOptions)\<lparr>running := True, ort := True, session := True,
       stateTensor := Some (replicate 256 0), isRecording := True,
       segmentBuffers := [loudFrame, quietFrame]\<rparr>"

text \<open>
  A controller whose pipeline task is suspended at the model call for the second
  frame of a four-frame chunk (loud, quiet, loud, loud) received after \<open>start\<close> with
  \<open>fastOptions\<close>: the first frame has started a segment, three frames are queued.
\<close>

definition midChunkController :: controller where
  "midChunkController =
     (snd (processFrame (testEnv diskOk) loudFrame
        (snd (start (testEnv diskOk) (createVADController fastOptions)))))
       \<lparr>framing := \<lparr>leftover = [], sampleQueue = quietFrame @ loudFrame @ loudFrame\<rparr>\<rparr>"

section \<open>Properties of the WAV encoder\<close>

lemma replicate_44:
  "replicate 44 (0::byte) =
     [0,0,0,0,0,0,0,0,0,0,0,0,0,0,0,0,0,0,0,0,0,0,0,0,0,0,0,0,0,0,0,0,0,0,0,0,0,0,0,0,0,0,0,0]"
  by code_simp

lemma length_payload: "length (concat (map int16Bytes S)) = 2 * length S"
  by (induction S) (simp_all add: int16Bytes_def)

lemma toUint32_16: "toUint32 16 = 16"
  by (simp add: toUint32_def)

lemma writeWav_eq: "writeWav S r = wavHeader (length S) r @ concat (map int16Bytes S)"
  by (simp add: writeWav_def Let_def replicate_add replicate_44 setUint8_def setUint16_def
      setUint32_def list_update_append wavHeader_def le32_def length_payload mult.commute
      toUint32_16)

lemma length_wavHeader: "length (wavHeader n r) = 44"
  by (simp add: wavHeader_def le32_def)

lemma length_writeWav: "length (writeWav S r) = 44 + 2 * length S"
  by (simp add: writeWav_eq length_wavHeader length_payload)

lemma word_cat_int16Bytes:
  "word_cat (ucast (drop_bit 8 s) :: byte) (ucast s :: byte) = (s :: int16)"
  by (rule bit_word_eqI) (auto simp: bit_word_cat_iff bit_ucast_iff bit_drop_bit_eq)

lemma int16View_payload: "int16View (concat (map int16Bytes S)) = S"
  by (induction S) (simp_all add: int16Bytes_def word_cat_int16Bytes)

lemma bytesToInt16Array_payload: "bytesToInt16Array (concat (map int16Bytes S)) = S"
  by (simp add: bytesToInt16Array_def Let_def length_payload int16View_payload)

lemma le32_arith:
  "u mod 256 + 256 * (u div 256 mod 256) + 65536 * (u div 65536 mod 256)
     + 16777216 * (u div 16777216) = (u::nat)"
proof -
  define a where "a = u div 256"
  define b where "b = a div 256"
  define c where "c = b div 256"
  have b: "u div 65536 = b" by (simp add: a_def b_def div_mult2_eq)
  have c: "u div 16777216 = c" by (simp add: a_def b_def c_def div_mult2_eq)
  have "u = u mod 256 + 256 * a" "a = a mod 256 + 256 * b" "b = b mod 256 + 256 * c"
    by (simp_all add: a_def b_def c_def)
  then have "u mod 256 + 256 * (a mod 256) + 65536 * (b mod 256) + 16777216 * c = u"
    by linarith
  then show ?thesis by (simp add: b c a_def)
qed

lemma getUint32_le32:
  assumes "u < 2 ^ 32"
  shows "getUint32 0 (le32 u @ rest) = u"
proof -
  have "u div 16777216 < 256" using assms by simp
  then have "u div 16777216 mod 256 = u div 16777216" by simp
  then show ?thesis by (simp add: getUint32_def le32_def unat_of_nat le32_arith)
qed

lemma getUint32_dataSize:
  assumes "2 * length S < 2 ^ 32"
  shows "getUint32 40 (writeWav S r) = 2 * length S"
proof -
  have u: "toUint32 (2 * int (length S)) = 2 * length S"
    using assms by (simp add: toUint32_def nat_mult_distrib)
  have "getUint32 40 (writeWav S r) = getUint32 0 (le32 (2 * length S) @ [])"
    by (simp add: getUint32_def writeWav_eq wavHeader_def nth_append le32_def u)
  then show ?thesis using assms by (simp only: getUint32_le32)
qed

text \<open>
  C6: the encoder's output is \<open>44 + 2 * |S|\<close> bytes long, the little-endian uint32 at
  bytes 40 to 43 (\<open>dataSize\<close>) is \<open>2 * |S|\<close>, and reading the bytes from offset 44 back
  with \<open>bytesToInt16Array\<close> returns \<open>S\<close>, for every sample sequence \<open>S\<close> and every sample
  rate. The uint32 field holds \<open>2 * |S|\<close> reduced modulo \<open>2 ^ 32\<close>; the hypothesis says
  that the payload fits a typed array of less than \<open>2 ^ 32\<close> bytes.
\<close>

theorem wav_roundtrip:
  assumes "2 * length S < 2 ^ 32"
  shows "length (writeWav S sampleRate) = 44 + 2 * length S
       \<and> getUint32 40 (writeWav S sampleRate) = 2 * length S
       \<and> bytesToInt16Array (drop 44 (writeWav S sampleRate)) = S"
  using assms
  by (simp add: length_writeWav getUint32_dataSize)
     (simp add: writeWav_eq length_wavHeader bytesToInt16Array_payload)

theorem wav_roundtrip_witness:
  "2 * length [1, 2, - 1 :: int16] < 2 ^ 32
   \<and> length (writeWav [1, 2, - 1] 16000) = 44 + 2 * length [1, 2, - 1 :: int16]
   \<and> getUint32 40 (writeWav [1, 2, - 1] 16000) = 2 * length [1, 2, - 1 :: int16]
   \<and> bytesToInt16Array (drop 44 (writeWav [1, 2, - 1] 16000)) = [1, 2, - 1]"
  using wav_roundtrip [of "[1, 2, - 1]" 16000] by simp

text \<open>
  C7: for every sample sequence and sample rate the payload starts at byte 44 (the
  header is exactly 44 bytes), bytes 0 to 3 are \<open>RIFF\<close>, 8 to 11 \<open>WAVE\<close>, 12 to 15
  \<open>fmt \<close>, 36 to 39 \<open>data\<close>, the little-endian uint16 at bytes 20 to 21 is 1 (PCM) and
  the one at bytes 34 to 35 is 16 (bits per sample).
\<close>

theorem wav_header_constants:
  "length (writeWav S sampleRate) = 44 + 2 * length S
   \<and> drop 44 (writeWav S sampleRate) = concat (map int16Bytes S)
   \<and> take 4 (writeWav S sampleRate) = charCodes ''RIFF''
   \<and> take 4 (drop 8 (writeWav S sampleRate)) = charCodes ''WAVE''
   \<and> take 4 (drop 12 (writeWav S sampleRate)) = charCodes ''fmt ''
   \<and> take 4 (drop 36 (writeWav S sampleRate)) = charCodes ''data''
   \<and> getUint16 20 (writeWav S sampleRate) = 1
   \<and> getUint16 34 (writeWav S sampleRate) = 16"
  by (simp add: length_writeWav)
     (simp add: writeWav_eq length_wavHeader getUint16_def nth_append charCodes_def
        wavHeader_def le32_def)

section \<open>Properties of the framer\<close>

lemma evenLen_div2: "(n - n mod 2) div 2 = (n::nat) div 2"
  by presburger

lemma length_int16View: "length (int16View bs) = length bs div 2"
  by (induction bs rule: int16View.induct) simp_all

lemma bytesToInt16Array_view: "bytesToInt16Array bs = int16View bs"
  by (simp add: bytesToInt16Array_def Let_def length_int16View evenLen_div2)

lemma int16View_append:
  "even (length xs) \<Longrightarrow> int16View (xs @ ys) = int16View xs @ int16View ys"
  by (induction xs rule: int16View.induct) simp_all

lemma int16View_take_even:
  "int16View (take (length bs - length bs mod 2) bs) = int16View bs"
  by (induction bs rule: int16View.induct) (simp_all add: Suc_diff_le mod_Suc_eq)

lemma even_prefix: "even (length (take (length bs - length bs mod 2) bs))"
  by (simp add: min_def) presburger

lemma take_oddTail: "take (length bs - length bs mod 2) bs @ oddTail bs = bs"
  by (simp add: oddTail_def)

lemma int16View_oddTail: "int16View (bs @ u) = int16View bs @ int16View (oddTail bs @ u)"
proof -
  have "int16View (bs @ u) = int16View ((take (length bs - length bs mod 2) bs @ oddTail bs) @ u)"
    by (simp only: take_oddTail)
  also have "\<dots> = int16View (take (length bs - length bs mod 2) bs @ (oddTail bs @ u))"
    by simp
  also have "\<dots> = int16View (take (length bs - length bs mod 2) bs) @ int16View (oddTail bs @ u)"
    by (rule int16View_append) (rule even_prefix)
  finally show ?thesis by (simp add: int16View_take_even)
qed

lemma oddTail_append_even:
  assumes "even (length xs)"
  shows "oddTail (xs @ ys) = oddTail ys"
proof -
  have m: "(length xs + length ys) mod 2 = length ys mod 2"
    using assms by presburger
  have "length xs + length ys - length ys mod 2 = length xs + (length ys - length ys mod 2)"
    by (simp add: mod_le_divisor [THEN le_trans] mod_less_eq_dividend)
  then show ?thesis by (simp add: oddTail_def m)
qed

lemma oddTail_oddTail: "oddTail (oddTail bs @ u) = oddTail (bs @ u)"
proof -
  have "oddTail (bs @ u) = oddTail ((take (length bs - length bs mod 2) bs @ oddTail bs) @ u)"
    by (simp only: take_oddTail)
  also have "\<dots> = oddTail (take (length bs - length bs mod 2) bs @ (oddTail bs @ u))"
    by simp
  also have "\<dots> = oddTail (oddTail bs @ u)"
    by (rule oddTail_append_even) (rule even_prefix)
  finally show ?thesis by simp
qed

lemma rest512_step: "512 \<le> length xs \<Longrightarrow> rest512 xs = rest512 (drop 512 xs)"
  by (simp add: rest512_def le_div_geq [of 512 "length xs"] add.commute)

lemma rest512_short: "\<not> 512 \<le> length xs \<Longrightarrow> rest512 xs = xs"
  by (simp add: rest512_def)

lemma chop512_append: "chop512 (xs @ ys) = chop512 xs @ chop512 (rest512 xs @ ys)"
proof (induction xs rule: chop512.induct)
  case (1 xs)
  show ?case
  proof (cases "512 \<le> length xs")
    case True
    have "chop512 (xs @ ys) = take 512 xs # chop512 (drop 512 xs @ ys)"
      using True by (subst chop512.simps) simp
    also have "\<dots> = take 512 xs # chop512 (drop 512 xs) @ chop512 (rest512 (drop 512 xs) @ ys)"
      using 1 True by simp
    also have "\<dots> = chop512 xs @ chop512 (rest512 xs @ ys)"
      using True rest512_step [OF True] by (subst (2) chop512.simps) simp
    finally show ?thesis .
  next
    case False
    with rest512_short [OF False] show ?thesis by (subst (2) chop512.simps) simp
  qed
qed

lemma rest512_append: "rest512 (xs @ ys) = rest512 (rest512 xs @ ys)"
proof (induction xs rule: chop512.induct)
  case (1 xs)
  show ?case
  proof (cases "512 \<le> length xs")
    case True
    then have "512 \<le> length (xs @ ys)" by simp
    then have "rest512 (xs @ ys) = rest512 (drop 512 (xs @ ys))" by (rule rest512_step)
    then have "rest512 (xs @ ys) = rest512 (drop 512 xs @ ys)" using True by simp
    with 1 True rest512_step [OF True] show ?thesis by simp
  next
    case False
    with rest512_short [OF False] show ?thesis by simp
  qed
qed

lemma whileFrames_collect:
  "whileFrames collectFrame q acc = (None, rest512 q, acc @ chop512 q)"
proof (induction q arbitrary: acc rule: chop512.induct)
  case (1 q)
  show ?case
  proof (cases "512 \<le> length q")
    case True
    have c: "collectFrame (take 512 q) acc = (None, acc @ [take 512 q])"
      by (simp add: collectFrame_def)
    show ?thesis using True 1 [OF True] rest512_step [OF True]
      by (subst whileFrames.simps, subst chop512.simps) (simp add: c)
  next
    case False
    then show ?thesis
      by (subst whileFrames.simps, subst chop512.simps) (simp add: rest512_def)
  qed
qed

lemma onChunk_collect:
  assumes "leftover fr = oddTail bs" "sampleQueue fr = rest512 (int16View bs)"
  shows "onChunk collectFrame u fr (chop512 (int16View bs)) =
      (None, \<lparr>leftover = oddTail (bs @ u), sampleQueue = rest512 (int16View (bs @ u))\<rparr>,
       chop512 (int16View (bs @ u)))"
proof -
  have s: "bytesToInt16Array (take (length (oddTail bs @ u) - length (oddTail bs @ u) mod 2) (oddTail bs @ u))
       = int16View (oddTail bs @ u)"
    by (simp only: bytesToInt16Array_view int16View_take_even)
  have q: "(if length (rest512 (int16View bs)) = 0 then int16View (oddTail bs @ u)
            else rest512 (int16View bs) @ int16View (oddTail bs @ u))
         = rest512 (int16View bs) @ int16View (oddTail bs @ u)"
    by simp
  have l: "drop (length (oddTail bs @ u) - length (oddTail bs @ u) mod 2) (oddTail bs @ u) = oddTail (bs @ u)"
    using oddTail_oddTail [of bs u] by (simp only: oddTail_def [of "oddTail bs @ u"])
  show ?thesis
    unfolding onChunk_def Let_def assms s q l whileFrames_collect
    by (simp add: int16View_oddTail [of bs u] chop512_append [symmetric] rest512_append [symmetric])
qed

lemma forAwait_collect:
  assumes "leftover fr = oddTail bs" "sampleQueue fr = rest512 (int16View bs)"
  shows "forAwait collectFrame chunks fr (chop512 (int16View bs)) =
      (None, \<lparr>leftover = oddTail (bs @ concat chunks), sampleQueue = rest512 (int16View (bs @ concat chunks))\<rparr>,
       chop512 (int16View (bs @ concat chunks)))"
  using assms
proof (induction chunks arbitrary: fr bs)
  case Nil
  then show ?case by simp
next
  case (Cons u chunks)
  show ?case
    using Cons.IH [of "\<lparr>leftover = oddTail (bs @ u), sampleQueue = rest512 (int16View (bs @ u))\<rparr>" "bs @ u"]
    by (simp add: onChunk_collect [OF Cons.prems])
qed

lemma chop512_short: "length xs < 512 \<Longrightarrow> chop512 xs = []"
  by (subst chop512.simps) simp

lemma framesEmitted_chop: "framesEmitted chunks = chop512 (bytesToInt16Array (concat chunks))"
  using forAwait_collect [of framer0 "[]" chunks]
  by (simp add: framesEmitted_def framer0_def oddTail_def rest512_def chop512_short bytesToInt16Array_view)

lemma chop512_map:
  "chop512 xs = map (\<lambda>i. take 512 (drop (512 * i) xs)) [0 ..< length xs div 512]"
proof (induction xs rule: chop512.induct)
  case (1 xs)
  show ?case
  proof (cases "512 \<le> length xs")
    case True
    have d: "length xs div 512 = Suc ((length xs - 512) div 512)"
      using True by (simp add: le_div_geq)
    have "chop512 xs = take 512 xs # chop512 (drop 512 xs)"
      using True by (subst chop512.simps) simp
    also have "\<dots> = take 512 xs # map (\<lambda>i. take 512 (drop (512 * i) (drop 512 xs))) [0 ..< (length xs - 512) div 512]"
      using 1 True by simp
    also have "\<dots> = map (\<lambda>i. take 512 (drop (512 * i) xs)) [0 ..< length xs div 512]"
      by (simp add: d upt_conv_Cons map_Suc_upt [symmetric] add.commute del: upt_Suc)
    finally show ?thesis .
  next
    case False
    then have "length xs div 512 = 0" by simp
    with False show ?thesis by (subst chop512.simps) simp
  qed
qed

lemma map_length_chop512: "map length (chop512 xs) = replicate (length xs div 512) 512"
proof (induction xs rule: chop512.induct)
  case (1 xs)
  show ?case
  proof (cases "512 \<le> length xs")
    case True
    have d: "length xs div 512 = Suc ((length xs - 512) div 512)"
      using True by (simp add: le_div_geq)
    show ?thesis using 1 True by (subst chop512.simps) (simp add: d)
  next
    case False
    then have "length xs div 512 = 0" by simp
    with False show ?thesis by (subst chop512.simps) simp
  qed
qed

lemma take_drop_append: "take k bs @ drop k bs @ zs = bs @ zs"
  by (simp only: append_assoc [symmetric] append_take_drop_id)

text \<open>
  Whatever the handler, the loop calls it on exactly the frames \<open>framesEmitted\<close>
  lists, in that order, up to the handler's first exception: \<open>processFrame\<close> receives
  the frames that the recording handler collects.
\<close>

lemma forFrames_append:
  "forFrames pf (xs @ ys) s =
     (case forFrames pf xs s of (Some e, s') \<Rightarrow> (Some e, s') | (None, s') \<Rightarrow> forFrames pf ys s')"
  by (induction xs arbitrary: s) (auto split: prod.splits option.splits)

lemma whileFrames_forFrames:
  "fst (whileFrames pf q s) = fst (forFrames pf (chop512 q) s)
   \<and> snd (snd (whileFrames pf q s)) = snd (forFrames pf (chop512 q) s)
   \<and> (fst (whileFrames pf q s) = None \<longrightarrow> fst (snd (whileFrames pf q s)) = rest512 q)"
proof (induction pf q s rule: whileFrames.induct)
  case (1 pf q s)
  show ?case
  proof (cases "512 \<le> length q")
    case True
    obtain e s' where p: "pf (take 512 q) s = (e, s')" by (cases "pf (take 512 q) s")
    show ?thesis
    proof (cases e)
      case None
      show ?thesis
        using 1 [OF True p [symmetric] None] True p None rest512_step [OF True]
        by (subst (1 2 3 4) whileFrames.simps, subst (1 2) chop512.simps) simp
    next
      case (Some a)
      show ?thesis
        using True p Some
        by (subst (1 2 3 4) whileFrames.simps, subst (1 2) chop512.simps) simp
    qed
  next
    case False
    then show ?thesis
      by (subst (1 2 3 4) whileFrames.simps, subst (1 2) chop512.simps) (simp add: rest512_def)
  qed
qed

lemma forAwait_forFrames:
  assumes "leftover fr = oddTail bs" "sampleQueue fr = rest512 (int16View bs)"
  shows "fst (forAwait pf chunks fr s)
           = fst (forFrames pf (chop512 (rest512 (int16View bs) @ int16View (oddTail bs @ concat chunks))) s)
       \<and> snd (snd (forAwait pf chunks fr s))
           = snd (forFrames pf (chop512 (rest512 (int16View bs) @ int16View (oddTail bs @ concat chunks))) s)"
  using assms
proof (induction chunks arbitrary: fr bs s)
  case Nil
  have "length (rest512 (int16View bs) @ int16View (oddTail bs)) < 512"
    by (simp add: rest512_def oddTail_def length_int16View) 
  then show ?case by (simp add: chop512_short)
next
  case (Cons u chunks)
  define q where "q = rest512 (int16View bs) @ int16View (oddTail bs @ u)"
  define fr' where "fr' = \<lparr>leftover = oddTail (bs @ u), sampleQueue = rest512 (int16View (bs @ u))\<rparr>"
  have s: "bytesToInt16Array (take (length (oddTail bs @ u) - length (oddTail bs @ u) mod 2) (oddTail bs @ u))
       = int16View (oddTail bs @ u)"
    by (simp only: bytesToInt16Array_view int16View_take_even)
  have l: "drop (length (oddTail bs @ u) - length (oddTail bs @ u) mod 2) (oddTail bs @ u) = oddTail (bs @ u)"
    using oddTail_oddTail [of bs u] by (simp only: oddTail_def [of "oddTail bs @ u"])
  have rq: "rest512 q = rest512 (int16View (bs @ u))"
    by (simp add: q_def int16View_oddTail [of bs u] rest512_append [symmetric])
  have oc: "onChunk pf u fr s =
      (fst (whileFrames pf q s), \<lparr>leftover = oddTail (bs @ u), sampleQueue = fst (snd (whileFrames pf q s))\<rparr>,
       snd (snd (whileFrames pf q s)))"
    unfolding onChunk_def Let_def Cons.prems s l
    by (simp add: q_def split: prod.splits)
  have v: "int16View (oddTail bs @ u @ concat chunks)
      = int16View (oddTail bs @ u) @ int16View (oddTail (bs @ u) @ concat chunks)"
    using int16View_oddTail [of "oddTail bs @ u" "concat chunks"] by (simp add: oddTail_oddTail)
  have c: "chop512 (rest512 (int16View bs) @ int16View (oddTail bs @ u @ concat chunks))
      = chop512 q @ chop512 (rest512 (int16View (bs @ u)) @ int16View (oddTail (bs @ u) @ concat chunks))"
  proof -
    have "rest512 (int16View bs) @ int16View (oddTail bs @ u @ concat chunks)
        = q @ int16View (oddTail (bs @ u) @ concat chunks)"
      by (simp add: v q_def)
    then show ?thesis
      using chop512_append [of q "int16View (oddTail (bs @ u) @ concat chunks)"]
      by (simp only: rq)
  qed
  note w = whileFrames_forFrames [of pf q s]
  show ?case
  proof (cases "fst (whileFrames pf q s)")
    case None
    then have q': "fst (snd (whileFrames pf q s)) = rest512 (int16View (bs @ u))"
      using w rq by simp
    have ff: "forFrames pf (chop512 q) s = (None, snd (snd (whileFrames pf q s)))"
      using w None by (metis prod.collapse)
    show ?thesis
      using Cons.IH [of fr' "bs @ u" "snd (snd (whileFrames pf q s))"]
      by (simp add: oc None q' fr'_def c forFrames_append ff)
  next
    case (Some e)
    have ff: "forFrames pf (chop512 q) s = (Some e, snd (snd (whileFrames pf q s)))"
      using w Some by (metis prod.collapse)
    show ?thesis
      by (simp add: oc Some c forFrames_append ff)
  qed
qed

lemma forAwait_handles_framesEmitted:
  "fst (forAwait pf chunks framer0 s) = fst (forFrames pf (framesEmitted chunks) s)
   \<and> snd (snd (forAwait pf chunks framer0 s)) = snd (forFrames pf (framesEmitted chunks) s)"
  using forAwait_forFrames [of framer0 "[]" pf chunks s]
  by (simp add: framer0_def oddTail_def rest512_def framesEmitted_chop bytesToInt16Array_view)

text \<open>
  C3: for a byte stream of total length \<open>L\<close>, delivered in chunks of any sizes (empty
  ones included), the framer emits exactly \<open>L div 2 div 512\<close> frames; the i-th frame is
  the i-th block of 512 samples of the little-endian int16 reading of the whole stream,
  so the frames come in arrival order, each has 512 samples, nothing outside these
  blocks is emitted and a final partial frame is dropped.
\<close>

theorem framer_emits_complete_frames:
  "framesEmitted chunks =
     map (\<lambda>i. take 512 (drop (512 * i) (bytesToInt16Array (concat chunks))))
       [0 ..< length (concat chunks) div 2 div 512]
   \<and> map length (framesEmitted chunks)
       = replicate (length (concat chunks) div 2 div 512) 512"
  by (simp add: framesEmitted_chop map_length_chop512)
     (simp add: chop512_map bytesToInt16Array_view length_int16View)

text \<open>
  C4: cutting a chunk \<open>bs\<close> at any point \<open>k\<close> and delivering the two pieces one after
  the other gives the same frames as delivering \<open>bs\<close> whole, whatever chunks came
  before and come after.
\<close>

theorem framer_split_invariant:
  "framesEmitted (before @ [take k bs, drop k bs] @ after)
     = framesEmitted (before @ [bs] @ after)"
  by (simp add: framesEmitted_chop take_drop_append)

section \<open>Evaluating the example inputs\<close>

lemma int16View_replicate: "int16View (replicate (2 * n) b) = replicate n (word_cat b b)"
  by (induction n) simp_all

lemma int16View_quietBytes: "int16View quietBytes = quietFrame"
  using int16View_replicate [of 512 0] by (simp add: quietBytes_def quietFrame_def)

lemma word_cat_1_1: "(word_cat (1::byte) (1::byte) :: int16) = 257"
  by (simp add: word_cat_eq)

lemma int16View_loudBytes: "int16View loudBytes = loudFrame"
  using int16View_replicate [of 512 1] by (simp add: loudBytes_def loudFrame_def word_cat_1_1)

lemma length_quietBytes: "length quietBytes = 1024"
  by (simp add: quietBytes_def)

lemma length_loudBytes: "length loudBytes = 1024"
  by (simp add: loudBytes_def)

lemma length_quietFrame: "length quietFrame = 512"
  by (simp add: quietFrame_def)

lemma length_loudFrame: "length loudFrame = 512"
  by (simp add: loudFrame_def)

lemma hd_toFloat32_quiet: "hd (toFloat32 quietFrame) = 0"
  by (simp add: quietFrame_def toFloat32_def)

lemma hd_toFloat32_loud: "hd (toFloat32 loudFrame) = 257 / 32768"
  by (simp add: loudFrame_def toFloat32_def)

lemmas frame_simps =
  length_quietBytes length_loudBytes length_quietFrame length_loudFrame
  int16View_quietBytes int16View_loudBytes bytesToInt16Array_view int16View_append
  hd_toFloat32_quiet hd_toFloat32_loud

lemmas controller_defs =
  start_def initOnnx_def processFrame_def hysteresis_def Let_def testEnv_def countingModel_def
  createVADController_def noOptions_def assign_def defaultVADOptions_def pushProb_def mean_def
  probAvgWindow_def startRecording_def stopRecording_def framer0_def segmentPath_def
  diskOk_def diskFull_def diskFailsFirst_def fastOptions_def

lemmas loop_defs =
  loop_def onData_def onEnd_def onChunk_def whileFrames.simps exitLoop_def finallyBlock_def
  stop_def awaitLoop_def

section \<open>Properties of the segment recorder\<close>

lemma whileFrames_short: "length q < 512 \<Longrightarrow> whileFrames pf q s = (None, q, s)"
  by (subst whileFrames.simps) simp

lemma chop512_long: "512 \<le> length xs \<Longrightarrow> chop512 xs = take 512 xs # chop512 (drop 512 xs)"
  by (subst chop512.simps) simp

lemma flushOf_cong:
  "segmentBuffers w' @ fs' = segmentBuffers w @ fs \<Longrightarrow> opts w' = opts w \<Longrightarrow>
   segmentIndex w' = segmentIndex w \<Longrightarrow> flushOf env w' fs' = flushOf env w fs"
  by (simp add: flushOf_def nextPath_def segmentWav_def segmentPath_def)

lemma stopRecording_written:
  "\<not> isRecording (snd (stopRecording env w))
   \<and> written (snd (stopRecording env w))
       = (if isRecording w then written w @ flushOf env w [] else written w)"
  by (simp add: stopRecording_def flushOf_def nextPath_def segmentWav_def segmentPath_def Let_def)

lemma stopRecording_idle: "\<not> isRecording w \<Longrightarrow> stopRecording env w = (None, w)"
  by (simp add: stopRecording_def)

lemma stopRecording_err:
  "stopRecording env w = (Some e, w') \<Longrightarrow> e = WriteFailed \<and> \<not> isRecording w'"
  by (auto simp: stopRecording_def Let_def split: if_splits)

text \<open>
  C10: in \<open>stopRecording\<close>, called while recording, \<open>isRecording\<close> is cleared and the
  frame buffer emptied whatever the write does, and \<open>segmentsSaved\<close>, \<open>lastSegmentPath\<close>
  (and the file) change only when the write succeeds: if the write throws, the call
  throws with the status fields unchanged, the frames gone and the recorder idle.
\<close>

theorem stopRecording_write_failure:
  assumes "isRecording w"
  shows "\<not> isRecording (snd (stopRecording env w))
       \<and> segmentBuffers (snd (stopRecording env w)) = []
       \<and> (if writeOk env (nextPath env w) (segmentWav w [])
          then fst (stopRecording env w) = None
             \<and> segmentsSaved (snd (stopRecording env w)) = segmentsSaved w + 1
             \<and> lastSegmentPath (snd (stopRecording env w)) = Some (nextPath env w)
             \<and> written (snd (stopRecording env w))
                 = written w @ [(nextPath env w, segmentWav w [])]
          else fst (stopRecording env w) = Some WriteFailed
             \<and> segmentsSaved (snd (stopRecording env w)) = segmentsSaved w
             \<and> lastSegmentPath (snd (stopRecording env w)) = lastSegmentPath w
             \<and> written (snd (stopRecording env w)) = written w)"
  using assms
  by (simp add: stopRecording_def Let_def nextPath_def segmentWav_def segmentPath_def)

theorem stopRecording_write_failure_witness:
  "isRecording recordingController
   \<and> \<not> writeOk (testEnv diskFull) (nextPath (testEnv diskFull) recordingController)
         (segmentWav recordingController [])
   \<and> fst (stopRecording (testEnv diskFull) recordingController) = Some WriteFailed
   \<and> segmentsSaved (snd (stopRecording (testEnv diskFull) recordingController)) = 0
   \<and> lastSegmentPath (snd (stopRecording (testEnv diskFull) recordingController)) = None
   \<and> written (snd (stopRecording (testEnv diskFull) recordingController)) = []
   \<and> segmentBuffers (snd (stopRecording (testEnv diskFull) recordingController)) = []
   \<and> \<not> isRecording (snd (stopRecording (testEnv diskFull) recordingController))"
  using stopRecording_write_failure [of recordingController "testEnv diskFull"]
  by (simp add: recordingController_def testEnv_def createVADController_def diskFull_def)

section \<open>Properties of the configuration\<close>

lemma updates_thresholds:
  "updates ps w = Inr w' \<Longrightarrow> list_all setsNoThreshold ps \<Longrightarrow>
   speechThreshold (opts w') = speechThreshold (opts w)
   \<and> silenceThreshold (opts w') = silenceThreshold (opts w)"
proof (induction ps arbitrary: w)
  case Nil
  then show ?case by simp
next
  case (Cons p ps)
  then show ?case
    by (auto simp: update_def assign_def setsNoThreshold_def split: if_splits)
qed

text \<open>
  C9, as stated, fails: \<open>update\<close> merges whatever it is given when the controller is
  not running. From the defaults, the accepted update \<open>{silenceThreshold: 0.9}\<close> gives
  a configuration with \<open>silenceThreshold = 0.9\<close> and \<open>speechThreshold = 0.35\<close>.
\<close>

theorem update_breaks_threshold_order:
  "\<not> isl (update (noOptions\<lparr>p_silenceThreshold := Some (9 / 10)\<rparr>) (createVADController noOptions))
   \<and> \<not> silenceThreshold (opts (projr (update (noOptions\<lparr>p_silenceThreshold := Some (9 / 10)\<rparr>)
                                          (createVADController noOptions))))
       < speechThreshold (opts (projr (update (noOptions\<lparr>p_silenceThreshold := Some (9 / 10)\<rparr>)
                                          (createVADController noOptions))))"
  by (simp add: update_def createVADController_def noOptions_def assign_def defaultVADOptions_def)

text \<open>
  C9, amended: the defaults satisfy \<open>silenceThreshold < speechThreshold\<close>, and so does
  every configuration reached from them through accepted \<open>update\<close> calls that set
  neither threshold.
\<close>

theorem updates_keep_threshold_order:
  assumes "updates ps (createVADController noOptions) = Inr w"
    and "list_all setsNoThreshold ps"
  shows "silenceThreshold (opts w) < speechThreshold (opts w)"
  using updates_thresholds [OF assms]
  by (simp add: createVADController_def noOptions_def assign_def defaultVADOptions_def)

theorem updates_keep_threshold_order_witness:
  "updates [noOptions\<lparr>p_rate := Some 8000\<rparr>] (createVADController noOptions)
     = Inr ((createVADController noOptions)\<lparr>opts := defaultVADOptions\<lparr>rate := 8000\<rparr>\<rparr>)
   \<and> list_all setsNoThreshold [noOptions\<lparr>p_rate := Some 8000\<rparr>]
   \<and> silenceThreshold (opts ((createVADController noOptions)\<lparr>opts := defaultVADOptions\<lparr>rate := 8000\<rparr>\<rparr>))
       < speechThreshold (opts ((createVADController noOptions)\<lparr>opts := defaultVADOptions\<lparr>rate := 8000\<rparr>\<rparr>))"
  using updates_keep_threshold_order [of "[noOptions\<lparr>p_rate := Some 8000\<rparr>]"
      "(createVADController noOptions)\<lparr>opts := defaultVADOptions\<lparr>rate := 8000\<rparr>\<rparr>"]
  by (simp add: update_def createVADController_def noOptions_def assign_def defaultVADOptions_def
      setsNoThreshold_def)

section \<open>Properties of start\<close>

text \<open>
  C2, as stated, fails: \<open>initOnnx\<close> returns before the tensor is created when a
  session exists. After a first run in which one frame was inferred (the example model
  turns the zero state into all ones) and a \<open>stop\<close>, a second \<open>start\<close> succeeds and the
  hidden state is still all ones.
\<close>

theorem restart_keeps_hidden_state:
  "fst (start (testEnv diskOk) (stop (testEnv diskOk) (onData (testEnv diskOk) quietBytes
          (snd (start (testEnv diskOk) (createVADController noOptions)))))) = None
   \<and> stateTensor (snd (start (testEnv diskOk) (stop (testEnv diskOk) (onData (testEnv diskOk) quietBytes
          (snd (start (testEnv diskOk) (createVADController noOptions)))))))
       = Some (replicate 256 1)
   \<and> replicate 256 (1::real) \<noteq> replicate 256 0"
  by (simp add: controller_defs loop_defs frame_simps)

text \<open>
  C2, amended: a successful \<open>start\<close> leaves the hidden state all zeros when no session
  existed before the call (the model is loaded by this call); when a session exists
  already, \<open>start\<close> keeps the hidden state it finds.
\<close>

theorem start_hidden_state:
  assumes "start env w = (None, w')"
  shows "stateTensor w' = (if session w then stateTensor w else Some (replicate 256 0))"
  using assms
  by (auto simp: start_def initOnnx_def Let_def split: if_splits)

theorem start_hidden_state_witness:
  "start (testEnv diskOk) (createVADController noOptions)
     = (None, snd (start (testEnv diskOk) (createVADController noOptions)))
   \<and> stateTensor (snd (start (testEnv diskOk) (createVADController noOptions)))
       = (if session (createVADController noOptions)
          then stateTensor (createVADController noOptions) else Some (replicate 256 0))"
  using start_hidden_state [of "testEnv diskOk" "createVADController noOptions"
      "snd (start (testEnv diskOk) (createVADController noOptions))"]
  by (simp add: controller_defs)

section \<open>Properties of the state machine\<close>

lemma hysteresis_idle_below:
  assumes "\<not> isRecording w" "prob \<le> speechThreshold (opts w)"
  shows "hysteresis env frame prob w = (None, w\<lparr>speechFrames := 0\<rparr>)"
  using assms by (simp add: hysteresis_def Let_def)

lemma hysteresis_idle_first:
  assumes "\<not> isRecording w" "speechFrames w = 0" "2 \<le> requiredSpeechFrames (opts w)"
  shows "hysteresis env frame prob w =
     (None, w\<lparr>speechFrames := (if prob > speechThreshold (opts w) then 1 else 0)\<rparr>)"
  using assms by (simp add: hysteresis_def Let_def)

lemma runHysteresis_append:
  "runHysteresis env (xs @ ys) w =
     (case runHysteresis env xs w of
        (Some e, w') \<Rightarrow> (Some e, w')
      | (None, w') \<Rightarrow> runHysteresis env ys w')"
  by (induction xs arbitrary: w) (auto split: prod.splits option.splits)

lemma runHysteresis_below:
  assumes "\<not> isRecording w" "notAbove (speechThreshold (opts w)) trace"
  shows "runHysteresis env trace w =
     (None, w\<lparr>speechFrames := (if trace = [] then speechFrames w else 0)\<rparr>)"
  using assms
proof (induction trace arbitrary: w)
  case Nil
  then show ?case by simp
next
  case (Cons x trace)
  obtain frame prob where x: "x = (frame, prob)" by (cases x)
  from Cons.prems have p: "prob \<le> speechThreshold (opts w)"
    and t: "notAbove (speechThreshold (opts w)) trace"
    by (simp_all add: notAbove_def x)
  have "runHysteresis env trace (w\<lparr>speechFrames := 0\<rparr>) =
     (None, w\<lparr>speechFrames := 0\<rparr>\<lparr>speechFrames := (if trace = [] then speechFrames (w\<lparr>speechFrames := 0\<rparr>) else 0)\<rparr>)"
    using Cons.prems(1) t by (intro Cons.IH) simp_all
  then show ?case
    using Cons.prems(1) p by (simp add: x hysteresis_idle_below)
qed

lemma runHysteresis_spike:
  assumes "\<not> isRecording w" "speechFrames w = 0" "2 \<le> requiredSpeechFrames (opts w)"
    and "notAbove (speechThreshold (opts w)) before"
    and "notAbove (speechThreshold (opts w)) after"
  shows "\<exists>k. runHysteresis env (before @ [(frame, spike)] @ after) w = (None, w\<lparr>speechFrames := k\<rparr>)"
proof -
  define k where "k = (if spike > speechThreshold (opts w) then 1 else 0 :: nat)"
  have b: "runHysteresis env before w = (None, w\<lparr>speechFrames := 0\<rparr>)"
    using runHysteresis_below [OF assms(1) assms(4), of env] assms(2) by simp
  have s: "hysteresis env frame spike (w\<lparr>speechFrames := 0\<rparr>) = (None, w\<lparr>speechFrames := k\<rparr>)"
    using hysteresis_idle_first [of "w\<lparr>speechFrames := 0\<rparr>" env frame spike] assms(1,3)
    by (simp add: k_def)
  have a: "runHysteresis env after (w\<lparr>speechFrames := k\<rparr>) =
      (None, w\<lparr>speechFrames := (if after = [] then k else 0)\<rparr>)"
    using runHysteresis_below [of "w\<lparr>speechFrames := k\<rparr>" after env] assms(1,5) by simp
  have "runHysteresis env (before @ [(frame, spike)] @ after) w =
      (None, w\<lparr>speechFrames := (if after = [] then k else 0)\<rparr>)"
    by (simp add: runHysteresis_append b s a)
  then show ?thesis by blast
qed

lemma take_spike_cases:
  "take n (before @ [x] @ after) = take n before \<and> n \<le> length before
   \<or> take n (before @ [x] @ after) = before @ [x] @ take (n - Suc (length before)) after"
  by (cases "n \<le> length before") (auto simp: take_Cons' not_le)

lemma notAbove_take: "notAbove t trace \<Longrightarrow> notAbove t (take n trace)"
  by (auto simp: notAbove_def list_all_iff dest: in_set_takeD)

text \<open>
  C5, as stated, fails: the state machine is fed the mean of the last five raw
  probabilities, not the raw probability. With the default configuration and the raw
  trace 0.05, 1, 0.05 the means are 0.05, 0.525 and 0.3667, so two frames in a row lie
  above \<open>speechThreshold = 0.35\<close> and the third frame starts a segment.
\<close>

theorem raw_spike_starts_recording:
  "requiredSpeechFrames (opts (snd (start (testEnv diskOk) (createVADController noOptions)))) = 2
   \<and> speechThreshold (opts (snd (start (testEnv diskOk) (createVADController noOptions)))) = 35 / 100
   \<and> silenceThreshold (opts (snd (start (testEnv diskOk) (createVADController noOptions)))) = 5 / 100
   \<and> countingModel [] (toFloat32 quietFrame) = RunResults (Some []) (Some (5 / 100))
   \<and> countingModel [] (toFloat32 loudFrame) = RunResults (Some []) (Some 1)
   \<and> \<not> isRecording (snd (start (testEnv diskOk) (createVADController noOptions)))
   \<and> \<not> isRecording (snd (processFrame (testEnv diskOk) loudFrame
        (snd (processFrame (testEnv diskOk) quietFrame
          (snd (start (testEnv diskOk) (createVADController noOptions)))))))
   \<and> isRecording (snd (processFrame (testEnv diskOk) quietFrame
        (snd (processFrame (testEnv diskOk) loudFrame
          (snd (processFrame (testEnv diskOk) quietFrame
            (snd (start (testEnv diskOk) (createVADController noOptions)))))))))"
  by (simp add: controller_defs frame_simps)

text \<open>
  C5, amended: on a trace of smoothed probabilities (the values the state machine
  compares) in which one frame may lie above \<open>speechThreshold\<close> and all frames before
  and after it are at or below \<open>speechThreshold\<close>, with \<open>requiredSpeechFrames \<ge> 2\<close>,
  the machine started idle with \<open>speechFrames = 0\<close> is idle after every prefix of the
  trace, raises no error and writes no file.
\<close>

theorem single_spike_never_starts:
  assumes "\<not> isRecording w" "speechFrames w = 0" "2 \<le> requiredSpeechFrames (opts w)"
    and "notAbove (speechThreshold (opts w)) before"
    and "notAbove (speechThreshold (opts w)) after"
  shows "fst (runHysteresis env (take n (before @ [(frame, spike)] @ after)) w) = None
       \<and> \<not> isRecording (snd (runHysteresis env (take n (before @ [(frame, spike)] @ after)) w))
       \<and> written (snd (runHysteresis env (take n (before @ [(frame, spike)] @ after)) w))
           = written w"
proof -
  consider (pre) "take n (before @ [(frame, spike)] @ after) = take n before"
    | (post) "take n (before @ [(frame, spike)] @ after)
                = before @ [(frame, spike)] @ take (n - Suc (length before)) after"
    using take_spike_cases [of n before "(frame, spike)" after] by blast
  then show ?thesis
  proof cases
    case pre
    have "runHysteresis env (take n before) w =
        (None, w\<lparr>speechFrames := (if take n before = [] then speechFrames w else 0)\<rparr>)"
      by (rule runHysteresis_below [OF assms(1) notAbove_take [OF assms(4)]])
    then show ?thesis unfolding pre using assms(1) by simp
  next
    case post
    obtain k where "runHysteresis env (before @ [(frame, spike)] @ take (n - Suc (length before)) after) w
        = (None, w\<lparr>speechFrames := k\<rparr>)"
      using runHysteresis_spike [OF assms(1-4) notAbove_take [OF assms(5)]] by blast
    then show ?thesis unfolding post using assms(1) by simp
  qed
qed

theorem single_spike_never_starts_witness:
  "\<not> isRecording (createVADController noOptions)
   \<and> speechFrames (createVADController noOptions) = 0
   \<and> 2 \<le> requiredSpeechFrames (opts (createVADController noOptions))
   \<and> notAbove (speechThreshold (opts (createVADController noOptions))) [(quietFrame, 5 / 100)]
   \<and> notAbove (speechThreshold (opts (createVADController noOptions)))
        [(quietFrame, 5 / 100), (quietFrame, 0)]
   \<and> fst (runHysteresis (testEnv diskOk)
        (take 4 ([(quietFrame, 5 / 100)] @ [(loudFrame, 9 / 10)] @ [(quietFrame, 5 / 100), (quietFrame, 0)]))
        (createVADController noOptions)) = None
   \<and> \<not> isRecording (snd (runHysteresis (testEnv diskOk)
        (take 4 ([(quietFrame, 5 / 100)] @ [(loudFrame, 9 / 10)] @ [(quietFrame, 5 / 100), (quietFrame, 0)]))
        (createVADController noOptions)))
   \<and> written (snd (runHysteresis (testEnv diskOk)
        (take 4 ([(quietFrame, 5 / 100)] @ [(loudFrame, 9 / 10)] @ [(quietFrame, 5 / 100), (quietFrame, 0)]))
        (createVADController noOptions))) = written (createVADController noOptions)"
  using single_spike_never_starts [of "createVADController noOptions" "[(quietFrame, 5 / 100)]"
      "[(quietFrame, 5 / 100), (quietFrame, 0)]" "testEnv diskOk" 4 loudFrame "9 / 10"]
  by (simp add: notAbove_def createVADController_def noOptions_def assign_def
      defaultVADOptions_def)

section \<open>Properties of the pipeline task\<close>

lemma hysteresis_err: "hysteresis env frame prob w = (Some e, w') \<Longrightarrow> e = WriteFailed \<and> \<not> isRecording w'"
  by (auto simp: hysteresis_def Let_def split: if_splits dest: stopRecording_err)

lemma processFrame_WriteFailed:
  "processFrame env frame w = (Some WriteFailed, w') \<Longrightarrow> \<not> isRecording w'"
  by (auto simp: processFrame_def Let_def split: option.splits if_splits runResult.splits dest: hysteresis_err)

lemma whileFrames_WriteFailed:
  "whileFrames (processFrame env) q w = (Some WriteFailed, q', w') \<Longrightarrow> \<not> isRecording w'"
proof (induction "processFrame env" q w rule: whileFrames.induct)
  case (1 q w)
  show ?case
  proof (cases "512 \<le> length q")
    case True
    obtain e w1 where pf: "processFrame env (take 512 q) w = (e, w1)" by (cases "processFrame env (take 512 q) w")
    show ?thesis
    proof (cases e)
      case None
      with 1 True pf show ?thesis by (subst (asm) (2) whileFrames.simps) simp
    next
      case (Some a)
      with 1(2) True pf have "a = WriteFailed" "w' = w1"
        by (subst (asm) whileFrames.simps, simp)+
      with pf Some show ?thesis by (auto dest: processFrame_WriteFailed)
    qed
  next
    case False
    with 1(2) show ?thesis by (subst (asm) whileFrames.simps) simp
  qed
qed

text \<open>
  C8, as stated, fails: \<open>processFrame\<close> awaits \<open>stopRecording\<close> without a handler, so
  a failed write leaves the frame loop through \<open>catch\<close> and \<open>finally\<close>. With a disk
  that refuses only the first segment, a stream of four frames (loud, quiet, loud in
  one chunk, loud in the next) ends the task at the second frame: two inferences were
  made, nothing was written and the controller is not running. With a disk that
  accepts every write the same stream is inferred to its end and gives two files.
\<close>

theorem write_failure_stops_pipeline:
  "lastErr (loop (testEnv diskFailsFirst) [loudBytes @ quietBytes @ loudBytes, loudBytes]
      (snd (start (testEnv diskFailsFirst) (createVADController fastOptions)))) = Some WriteFailed
   \<and> stateTensor (loop (testEnv diskFailsFirst) [loudBytes @ quietBytes @ loudBytes, loudBytes]
      (snd (start (testEnv diskFailsFirst) (createVADController fastOptions)))) = Some (replicate 256 2)
   \<and> written (loop (testEnv diskFailsFirst) [loudBytes @ quietBytes @ loudBytes, loudBytes]
      (snd (start (testEnv diskFailsFirst) (createVADController fastOptions)))) = []
   \<and> \<not> running (onData (testEnv diskFailsFirst) (loudBytes @ quietBytes @ loudBytes)
      (snd (start (testEnv diskFailsFirst) (createVADController fastOptions))))
   \<and> stateTensor (loop (testEnv diskOk) [loudBytes @ quietBytes @ loudBytes, loudBytes]
      (snd (start (testEnv diskOk) (createVADController fastOptions)))) = Some (replicate 256 4)
   \<and> map fst (written (loop (testEnv diskOk) [loudBytes @ quietBytes @ loudBytes, loudBytes]
      (snd (start (testEnv diskOk) (createVADController fastOptions)))))
       = [''segments/segment_2025-01-01_00-00-00_1.wav'',
          ''segments/segment_2025-01-01_00-00-00_2.wav'']"
  by (simp add: controller_defs loop_defs frame_simps showNat.simps)

text \<open>
  C8, amended: if the write of a segment fails while a chunk is processed, the
  pipeline task ends there: \<open>running\<close> is false, \<open>lastErr\<close> holds the failure, the
  recorder is idle, the final flush writes nothing, and neither a later chunk nor the
  end of the stream changes the controller any more.
\<close>

theorem write_failure_ends_pipeline:
  assumes "running w" "\<not> abort w"
    and "fst (onChunk (processFrame env) chunk (framing w) w) = Some WriteFailed"
  shows "\<not> running (onData env chunk w)
       \<and> lastErr (onData env chunk w) = Some WriteFailed
       \<and> \<not> isRecording (onData env chunk w)
       \<and> written (onData env chunk w)
           = written (snd (snd (onChunk (processFrame env) chunk (framing w) w)))
       \<and> onData env chunk' (onData env chunk w) = onData env chunk w
       \<and> onEnd env (onData env chunk w) = onData env chunk w"
proof -
  obtain fr w' where oc: "onChunk (processFrame env) chunk (framing w) w = (Some WriteFailed, fr, w')"
    using assms(3) by (cases "onChunk (processFrame env) chunk (framing w) w") auto
  then have "\<not> isRecording w'"
    by (auto simp: onChunk_def Let_def split: prod.splits dest: whileFrames_WriteFailed)
  then have od: "onData env chunk w = w'\<lparr>framing := fr, lastErr := Some WriteFailed, running := False\<rparr>"
    using assms(1,2) oc by (simp add: onData_def exitLoop_def finallyBlock_def stopRecording_idle)
  show ?thesis using \<open>\<not> isRecording w'\<close> oc
    by (simp add: od) (simp add: onData_def onEnd_def)
qed

theorem write_failure_ends_pipeline_witness:
  "running (snd (start (testEnv diskFull) (createVADController fastOptions)))
   \<and> \<not> abort (snd (start (testEnv diskFull) (createVADController fastOptions)))
   \<and> fst (onChunk (processFrame (testEnv diskFull)) (loudBytes @ quietBytes @ loudBytes)
        (framing (snd (start (testEnv diskFull) (createVADController fastOptions))))
        (snd (start (testEnv diskFull) (createVADController fastOptions)))) = Some WriteFailed
   \<and> \<not> running (onData (testEnv diskFull) (loudBytes @ quietBytes @ loudBytes)
        (snd (start (testEnv diskFull) (createVADController fastOptions))))
   \<and> lastErr (onData (testEnv diskFull) (loudBytes @ quietBytes @ loudBytes)
        (snd (start (testEnv diskFull) (createVADController fastOptions)))) = Some WriteFailed
   \<and> onData (testEnv diskFull) loudBytes (onData (testEnv diskFull) (loudBytes @ quietBytes @ loudBytes)
        (snd (start (testEnv diskFull) (createVADController fastOptions))))
       = onData (testEnv diskFull) (loudBytes @ quietBytes @ loudBytes)
        (snd (start (testEnv diskFull) (createVADController fastOptions)))"
  using write_failure_ends_pipeline [of "snd (start (testEnv diskFull) (createVADController fastOptions))"
      "testEnv diskFull" "loudBytes @ quietBytes @ loudBytes" loudBytes]
  by (simp add: controller_defs loop_defs frame_simps)

section \<open>Properties of stop\<close>

lemma exitLoop_written:
  "\<not> isRecording (exitLoop env (e, fr, w))
   \<and> written (exitLoop env (e, fr, w))
       = (if isRecording w then written w @ flushOf env w [] else written w)"
proof (cases e)
  case None
  show ?thesis
    using stopRecording_written [of env "w\<lparr>framing := fr, running := False\<rparr>"]
    by (simp add: exitLoop_def finallyBlock_def None flushOf_def nextPath_def segmentWav_def segmentPath_def)
next
  case (Some x)
  show ?thesis
    using stopRecording_written [of env "w\<lparr>framing := fr, lastErr := Some x, running := False\<rparr>"]
    by (simp add: exitLoop_def finallyBlock_def Some flushOf_def nextPath_def segmentWav_def segmentPath_def)
qed

lemma finallyBlock_written:
  "written (finallyBlock env w)
     = (if isRecording w then written w @ flushOf env w [] else written w)"
  using stopRecording_written [of env "w\<lparr>running := False\<rparr>"]
  by (simp add: finallyBlock_def flushOf_def nextPath_def segmentWav_def segmentPath_def)

lemma filesAfter_append:
  "filesAfter env w n (xs @ ys) = (filesAfter env w n xs \<and> filesAfter env w n ys)"
  by (simp add: filesAfter_def)

lemma segmentPath_opts:
  "opts w' = opts w \<Longrightarrow>
     segmentPath env (w'\<lparr>segmentIndex := i\<rparr>) = segmentPath env (w\<lparr>segmentIndex := i\<rparr>)"
  by (simp add: segmentPath_def)

lemma filesAfter_mono:
  assumes "filesAfter env w' n' files" "opts w' = opts w" "n \<le> n'"
  shows "filesAfter env w n files"
  unfolding filesAfter_def list_all_iff
proof (intro ballI)
  fix x assume "x \<in> set files"
  obtain path wav where x: "x = (path, wav)" by (cases x)
  from assms(1) \<open>x \<in> set files\<close> obtain i where
    i: "n' < i" "path = segmentPath env (w'\<lparr>segmentIndex := i\<rparr>)"
    by (auto simp: filesAfter_def list_all_iff x)
  have "n < i \<and> path = segmentPath env (w\<lparr>segmentIndex := i\<rparr>)"
    using i assms(3) segmentPath_opts [OF assms(2), of env i] by simp
  then show "case x of (path, wav) \<Rightarrow> \<exists>i. n < i \<and> path = segmentPath env (w\<lparr>segmentIndex := i\<rparr>)"
    unfolding x by blast
qed

lemma filesAfter_flushOf:
  "n \<le> segmentIndex w \<Longrightarrow> filesAfter env w n (flushOf env w frames)"
  by (auto simp: filesAfter_def flushOf_def nextPath_def intro!: exI [of _ "Suc (segmentIndex w)"])

lemma hysteresis_files:
  "hysteresis env f prob w = (e, w') \<Longrightarrow>
     opts w' = opts w \<and> segmentIndex w \<le> segmentIndex w'
     \<and> (\<exists>more. written w' = written w @ more \<and> filesAfter env w (segmentIndex w) more)"
  by (auto simp: hysteresis_def stopRecording_def startRecording_def Let_def filesAfter_def
      segmentPath_def split: if_splits)

lemma processFrame_files:
  "processFrame env f w = (e, w') \<Longrightarrow>
     opts w' = opts w \<and> segmentIndex w \<le> segmentIndex w'
     \<and> (\<exists>more. written w' = written w @ more \<and> filesAfter env w (segmentIndex w) more)"
proof (cases "stateTensor w")
  case None
  then show "processFrame env f w = (e, w') \<Longrightarrow> ?thesis"
    by (auto simp: processFrame_def filesAfter_def)
next
  case (Some state)
  assume pf: "processFrame env f w = (e, w')"
  show ?thesis
  proof (cases "\<not> session w \<or> \<not> ort w")
    case True
    with pf Some show ?thesis by (auto simp: processFrame_def filesAfter_def)
  next
    case False
    show ?thesis
    proof (cases "sessionRun env state (toFloat32 f)")
      case RunThrows
      with pf Some False show ?thesis by (auto simp: processFrame_def Let_def filesAfter_def)
    next
      case (RunResults state' out)
      define w1 where "w1 = (case state' of Some t \<Rightarrow> w\<lparr>stateTensor := Some t\<rparr> | None \<Rightarrow> w)"
      define w2 where "w2 = w1\<lparr>probBuffer := pushProb (case out of Some p \<Rightarrow> p | None \<Rightarrow> 0) (probBuffer w1)\<rparr>"
      have same: "written w2 = written w" "segmentIndex w2 = segmentIndex w" "opts w2 = opts w"
        by (simp_all add: w1_def w2_def split: option.splits)
      have h: "hysteresis env f (mean (probBuffer w2)) w2 = (e, w')"
        using pf Some False RunResults by (simp add: processFrame_def Let_def w1_def w2_def)
      from hysteresis_files [OF h] obtain more where
        m: "opts w' = opts w2" "segmentIndex w2 \<le> segmentIndex w'"
           "written w' = written w2 @ more" "filesAfter env w2 (segmentIndex w2) more"
        by blast
      have "filesAfter env w (segmentIndex w) more"
        using filesAfter_mono [OF m(4), of w "segmentIndex w"] by (simp add: same)
      with m show ?thesis by (simp add: same)
    qed
  qed
qed

lemma forFrames_files:
  "forFrames (processFrame env) fs w = (e, w') \<Longrightarrow>
     opts w' = opts w \<and> segmentIndex w \<le> segmentIndex w'
     \<and> (\<exists>more. written w' = written w @ more \<and> filesAfter env w (segmentIndex w) more)"
proof (induction fs arbitrary: w)
  case Nil
  then show ?case by (simp add: filesAfter_def)
next
  case (Cons f fs)
  obtain e1 w1 where pf: "processFrame env f w = (e1, w1)" by (cases "processFrame env f w")
  from processFrame_files [OF pf] obtain m1 where
    m1: "opts w1 = opts w" "segmentIndex w \<le> segmentIndex w1"
        "written w1 = written w @ m1" "filesAfter env w (segmentIndex w) m1"
    by blast
  show ?case
  proof (cases e1)
    case None
    with Cons.prems pf have "forFrames (processFrame env) fs w1 = (e, w')" by simp
    from Cons.IH [OF this] obtain m2 where
      m2: "opts w' = opts w1" "segmentIndex w1 \<le> segmentIndex w'"
          "written w' = written w1 @ m2" "filesAfter env w1 (segmentIndex w1) m2"
      by blast
    have "filesAfter env w (segmentIndex w) m2"
      using filesAfter_mono [OF m2(4) m1(1) m1(2)] .
    with m1 m2 have "written w' = written w @ (m1 @ m2) \<and> filesAfter env w (segmentIndex w) (m1 @ m2)"
      by (simp add: filesAfter_append)
    with m1 m2 show ?thesis by (metis le_trans)
  next
    case (Some a)
    with Cons.prems pf have "w' = w1" by simp
    with m1 show ?thesis by blast
  qed
qed

lemma hysteresis_recording:
  assumes "isRecording w" "hysteresis env f prob w = (e, w')"
  shows "(isRecording w' \<and> e = None \<and> written w' = written w \<and> segmentIndex w' = segmentIndex w
            \<and> opts w' = opts w \<and> segmentBuffers w' = segmentBuffers w @ [f])
       \<or> (\<not> isRecording w' \<and> written w' = written w @ flushOf env w [f]
            \<and> segmentIndex w' = segmentIndex w + 1 \<and> opts w' = opts w)"
  using assms
  by (auto simp: hysteresis_def stopRecording_def flushOf_def nextPath_def segmentWav_def
      segmentPath_def Let_def split: if_splits)

lemma processFrame_recording:
  assumes "isRecording w" "processFrame env f w = (e, w')"
  shows "(isRecording w' \<and> written w' = written w \<and> segmentIndex w' = segmentIndex w
            \<and> opts w' = opts w
            \<and> segmentBuffers w' = (if e = None then segmentBuffers w @ [f] else segmentBuffers w))
       \<or> (\<not> isRecording w' \<and> written w' = written w @ flushOf env w [f]
            \<and> segmentIndex w' = segmentIndex w + 1 \<and> opts w' = opts w)"
proof (cases "stateTensor w")
  case None
  with assms show ?thesis by (auto simp: processFrame_def)
next
  case (Some state)
  show ?thesis
  proof (cases "\<not> session w \<or> \<not> ort w")
    case True
    with assms Some show ?thesis by (auto simp: processFrame_def)
  next
    case False
    show ?thesis
    proof (cases "sessionRun env state (toFloat32 f)")
      case RunThrows
      with assms Some False show ?thesis by (auto simp: processFrame_def Let_def)
    next
      case (RunResults state' out)
      define w1 where "w1 = (case state' of Some t \<Rightarrow> w\<lparr>stateTensor := Some t\<rparr> | None \<Rightarrow> w)"
      define w2 where "w2 = w1\<lparr>probBuffer := pushProb (case out of Some p \<Rightarrow> p | None \<Rightarrow> 0) (probBuffer w1)\<rparr>"
      have same: "isRecording w2 = isRecording w" "written w2 = written w" "segmentIndex w2 = segmentIndex w"
        "opts w2 = opts w" "segmentBuffers w2 = segmentBuffers w"
        by (simp_all add: w1_def w2_def split: option.splits)
      have fl: "flushOf env w2 [f] = flushOf env w [f]"
        by (simp add: flushOf_def nextPath_def segmentWav_def segmentPath_def same)
      have h: "hysteresis env f (mean (probBuffer w2)) w2 = (e, w')"
        using assms(2) Some False RunResults by (simp add: processFrame_def Let_def w1_def w2_def)
      show ?thesis
        using hysteresis_recording [OF _ h] assms(1) by (auto simp: same fl)
    qed
  qed
qed

lemma forFrames_recording:
  assumes "isRecording w" "\<forall>wav. writeOk env (nextPath env w) wav"
    and "forFrames (processFrame env) fs w = (e, w')"
  shows "(isRecording w' \<and> written w' = written w \<and> segmentIndex w' = segmentIndex w
            \<and> opts w' = opts w
            \<and> segmentBuffers w' = segmentBuffers w @ take (appendedBeforeFlush env fs w) fs)
       \<or> (opts w' = opts w \<and> segmentIndex w < segmentIndex w'
            \<and> (\<exists>rest. written w' = written w
                   @ (nextPath env w, segmentWav w (take (appendedBeforeFlush env fs w) fs)) # rest
                 \<and> filesAfter env w (segmentIndex w + 1) rest))"
  using assms
proof (induction fs arbitrary: w)
  case Nil
  then show ?case by simp
next
  case (Cons f fs)
  obtain e1 w1 where pf: "processFrame env f w = (e1, w1)" by (cases "processFrame env f w")
  have fo: "\<And>x. flushOf env w x = [(nextPath env w, segmentWav w x)]"
    using Cons.prems(2) by (simp add: flushOf_def)
  from processFrame_recording [OF Cons.prems(1) pf]
  consider (openC) "isRecording w1" "written w1 = written w" "segmentIndex w1 = segmentIndex w"
      "opts w1 = opts w"
      "segmentBuffers w1 = (if e1 = None then segmentBuffers w @ [f] else segmentBuffers w)"
    | (flushed) "\<not> isRecording w1" "written w1 = written w @ flushOf env w [f]"
      "segmentIndex w1 = segmentIndex w + 1" "opts w1 = opts w"
    by blast
  then show ?case
  proof cases
    case openC
    show ?thesis
    proof (cases e1)
      case None
      have r: "forFrames (processFrame env) fs w1 = (e, w')"
        using Cons.prems(3) pf None by simp
      have k: "appendedBeforeFlush env (f # fs) w = Suc (appendedBeforeFlush env fs w1)"
        using pf None openC(1) by simp
      have np: "nextPath env w1 = nextPath env w"
        using openC by (simp add: nextPath_def segmentPath_def)
      have sw: "\<And>x. segmentWav w1 x = segmentWav w (f # x)"
        using openC None by (simp add: segmentWav_def)
      have ok1: "\<forall>wav. writeOk env (nextPath env w1) wav"
        using Cons.prems(2) np by simp
      from Cons.IH [OF openC(1) ok1 r]
      show ?thesis
      proof
        assume "isRecording w' \<and> written w' = written w1 \<and> segmentIndex w' = segmentIndex w1
            \<and> opts w' = opts w1
            \<and> segmentBuffers w' = segmentBuffers w1 @ take (appendedBeforeFlush env fs w1) fs"
        then show ?thesis using openC None unfolding k by simp
      next
        assume "opts w' = opts w1 \<and> segmentIndex w1 < segmentIndex w'
            \<and> (\<exists>rest. written w' = written w1
                   @ (nextPath env w1, segmentWav w1 (take (appendedBeforeFlush env fs w1) fs)) # rest
                 \<and> filesAfter env w1 (segmentIndex w1 + 1) rest)"
        then obtain rest where
          a: "opts w' = opts w1" "segmentIndex w1 < segmentIndex w'"
             "written w' = written w1
                 @ (nextPath env w1, segmentWav w1 (take (appendedBeforeFlush env fs w1) fs)) # rest"
             "filesAfter env w1 (segmentIndex w1 + 1) rest"
          by blast
        have "filesAfter env w (segmentIndex w + 1) rest"
          using filesAfter_mono [OF a(4) openC(4), of "segmentIndex w + 1"] openC(3) by simp
        with a openC show ?thesis unfolding k by (simp add: np sw)
      qed
    next
      case (Some a)
      have "w' = w1" using Cons.prems(3) pf Some by simp
      moreover have k0: "appendedBeforeFlush env (f # fs) w = 0"
        using pf Some openC(1) by simp
      ultimately show ?thesis using openC Some unfolding k0 by simp
    qed
  next
    case flushed
    have k: "appendedBeforeFlush env (f # fs) w = 1"
      using pf flushed(1) by (cases e1) simp_all
    have "\<exists>more. opts w' = opts w1 \<and> segmentIndex w1 \<le> segmentIndex w'
        \<and> written w' = written w1 @ more \<and> filesAfter env w1 (segmentIndex w1) more"
    proof (cases e1)
      case None
      have "forFrames (processFrame env) fs w1 = (e, w')"
        using Cons.prems(3) pf None by simp
      from forFrames_files [OF this] show ?thesis by blast
    next
      case (Some a)
      have "w' = w1" using Cons.prems(3) pf Some by simp
      then show ?thesis by (simp add: filesAfter_def)
    qed
    then obtain more where
      m: "opts w' = opts w1" "segmentIndex w1 \<le> segmentIndex w'"
         "written w' = written w1 @ more" "filesAfter env w1 (segmentIndex w1) more"
      by blast
    have "filesAfter env w (segmentIndex w + 1) more"
      using filesAfter_mono [OF m(4) flushed(4), of "segmentIndex w + 1"] flushed(3) by simp
    with m flushed show ?thesis unfolding k by (auto simp: fo)
  qed
qed


lemma stopRecording_abort:
  "stopRecording env (w\<lparr>abort := b\<rparr>)
     = (fst (stopRecording env w), (snd (stopRecording env w))\<lparr>abort := b\<rparr>)"
  by (simp add: stopRecording_def Let_def segmentPath_def)

lemma hysteresis_abort:
  "hysteresis env f prob (w\<lparr>abort := b\<rparr>)
     = (fst (hysteresis env f prob w), (snd (hysteresis env f prob w))\<lparr>abort := b\<rparr>)"
  by (simp add: hysteresis_def Let_def startRecording_def stopRecording_def segmentPath_def)

lemma processFrame_abort:
  "processFrame env f (w\<lparr>abort := b\<rparr>)
     = (fst (processFrame env f w), (snd (processFrame env f w))\<lparr>abort := b\<rparr>)"
proof (cases "stateTensor w")
  case None
  then show ?thesis by (simp add: processFrame_def)
next
  case (Some state)
  show ?thesis
  proof (cases "\<not> session w \<or> \<not> ort w")
    case True
    with Some show ?thesis by (auto simp: processFrame_def)
  next
    case False
    show ?thesis
    proof (cases "sessionRun env state (toFloat32 f)")
      case RunThrows
      with Some False show ?thesis by (simp add: processFrame_def Let_def)
    next
      case (RunResults state' out)
      define w2 where "w2 = (case state' of Some t \<Rightarrow> w\<lparr>stateTensor := Some t\<rparr> | None \<Rightarrow> w)
          \<lparr>probBuffer := pushProb (case out of Some p \<Rightarrow> p | None \<Rightarrow> 0) (probBuffer w)\<rparr>"
      have p: "\<And>x v. x\<lparr>abort := b, probBuffer := v\<rparr> = x\<lparr>probBuffer := v, abort := b\<rparr>"
        by simp
      have u: "\<And>x t. x\<lparr>abort := b, stateTensor := t\<rparr> = x\<lparr>stateTensor := t, abort := b\<rparr>"
        by simp
      have l: "processFrame env f (w\<lparr>abort := b\<rparr>)
          = hysteresis env f (mean (probBuffer w2)) (w2\<lparr>abort := b\<rparr>)"
        using Some False RunResults
        by (simp add: processFrame_def Let_def w2_def p u split: option.splits)
      have r: "processFrame env f w = hysteresis env f (mean (probBuffer w2)) w2"
        using Some False RunResults
        by (simp add: processFrame_def Let_def w2_def split: option.splits)
      show ?thesis
        by (simp only: l r hysteresis_abort)
    qed
  qed
qed

lemma forFrames_abort:
  "forFrames (processFrame env) fs (w\<lparr>abort := b\<rparr>)
     = (fst (forFrames (processFrame env) fs w), (snd (forFrames (processFrame env) fs w))\<lparr>abort := b\<rparr>)"
proof (induction fs arbitrary: w)
  case Nil
  show ?case by simp
next
  case (Cons f fs)
  obtain e1 w1 where pf: "processFrame env f w = (e1, w1)" by (cases "processFrame env f w")
  show ?case
    by (cases e1) (simp_all add: processFrame_abort pf Cons.IH)
qed

lemma finallyBlock_abort:
  "written (finallyBlock env (w\<lparr>abort := b\<rparr>)) = written (finallyBlock env w)"
  by (simp add: finallyBlock_written flushOf_def nextPath_def segmentWav_def segmentPath_def)

lemma awaitLoop_written:
  "written (awaitLoop env w)
     = written (finallyBlock env (snd (forFrames (processFrame env) (queuedFrames w) w)))
   \<and> \<not> isRecording (awaitLoop env w)"
proof -
  obtain e q w' where wf: "whileFrames (processFrame env) (sampleQueue (framing w)) w = (e, q, w')"
    by (cases "whileFrames (processFrame env) (sampleQueue (framing w)) w") auto
  have "w' = snd (forFrames (processFrame env) (queuedFrames w) w)"
    using whileFrames_forFrames [of "processFrame env" "sampleQueue (framing w)" w] wf
    by (simp add: queuedFrames_def)
  then show ?thesis
    by (simp add: awaitLoop_def wf exitLoop_written finallyBlock_written)
qed

lemma stop_written:
  assumes "running w"
  shows "written (stop env w)
           = written (finallyBlock env (snd (forFrames (processFrame env) (queuedFrames w) w)))
       \<and> \<not> running (stop env w) \<and> \<not> isRecording (stop env w)"
proof -
  have st: "stop env w = (awaitLoop env (w\<lparr>abort := True\<rparr>))\<lparr>running := False\<rparr>"
    using assms by (simp add: stop_def Let_def)
  have q: "queuedFrames (w\<lparr>abort := True\<rparr>) = queuedFrames w"
    by (simp add: queuedFrames_def)
  show ?thesis
    using awaitLoop_written [of env "w\<lparr>abort := True\<rparr>"]
    by (simp add: st q forFrames_abort finallyBlock_abort)
qed

text \<open>
  C1, as stated, fails when \<open>stop\<close> arrives while complete frames are still queued:
  \<open>abort\<close> is only tested between chunks, so the task first processes the queued
  frames. With a disk that accepts every write, \<open>stop\<close> invoked in \<open>Recording\<close> while
  the frames quiet, loud, loud are queued writes two WAV files: the quiet frame ends
  the segment in progress, the last loud frame starts another one, and \<open>finally\<close>
  flushes it. \<open>segmentsSaved\<close> is 2 after \<open>stop\<close>.
\<close>

theorem stop_with_queued_frames_writes_two_files:
  "running midChunkController \<and> isRecording midChunkController
   \<and> segmentBuffers midChunkController = [loudFrame]
   \<and> written midChunkController = []
   \<and> written (stop (testEnv diskOk) midChunkController)
       = [(''segments/segment_2025-01-01_00-00-00_1.wav'', writeWav (loudFrame @ quietFrame) 16000),
          (''segments/segment_2025-01-01_00-00-00_2.wav'', writeWav loudFrame 16000)]
   \<and> segmentsSaved (stop (testEnv diskOk) midChunkController) = 2
   \<and> \<not> running (stop (testEnv diskOk) midChunkController)"
  by (simp add: controller_defs loop_defs frame_simps midChunkController_def showNat.simps)

text \<open>
  C1, amended: let \<open>stop\<close> be invoked while recording, on a disk that accepts the
  write of the file of the segment in progress. If the pipeline task is waiting for a
  chunk (fewer than 512 samples queued), exactly one WAV file is written: the segment
  in progress, with all frames appended since speech-start. If complete frames are
  queued, the files after \<open>stop\<close> are those left by handing the queued frames to
  \<open>processFrame\<close> in order and by the final flush: the first new file is the segment in
  progress, holding the frames buffered at the call followed by the queued frames
  appended to it before its flush, and every further file is the file of a segment
  with a higher index. In both cases \<open>running\<close> is false and the recorder idle after
  \<open>stop\<close>.
\<close>

theorem stop_flushes_recording:
  assumes "running w" "isRecording w" "\<forall>wav. writeOk env (nextPath env w) wav"
  shows "(length (sampleQueue (framing w)) < 512
            \<longrightarrow> written (stop env w) = written w @ [(nextPath env w, segmentWav w [])])
       \<and> written (stop env w)
           = written (finallyBlock env (snd (forFrames (processFrame env) (queuedFrames w) w)))
       \<and> (\<exists>rest.
             written (stop env w)
               = written w
                   @ (nextPath env w,
                      segmentWav w (take (appendedBeforeFlush env (queuedFrames w) w) (queuedFrames w)))
                   # rest
           \<and> filesAfter env w (segmentIndex w + 1) rest)
       \<and> \<not> running (stop env w) \<and> \<not> isRecording (stop env w)"
proof -
  define fs where "fs = queuedFrames w"
  define k where "k = appendedBeforeFlush env fs w"
  obtain e w1 where ff: "forFrames (processFrame env) fs w = (e, w1)"
    by (cases "forFrames (processFrame env) fs w")
  have sw: "written (stop env w) = written (finallyBlock env w1)"
    "\<not> running (stop env w)" "\<not> isRecording (stop env w)"
    using stop_written [OF assms(1), of env] ff by (simp_all add: fs_def)
  have fb: "written (finallyBlock env w1)
      = (if isRecording w1 then written w1 @ flushOf env w1 [] else written w1)"
    by (rule finallyBlock_written)
  have main: "\<exists>rest. written (finallyBlock env w1)
        = written w @ (nextPath env w, segmentWav w (take k fs)) # rest
      \<and> filesAfter env w (segmentIndex w + 1) rest
      \<and> (fs = [] \<longrightarrow> rest = [])"
    using forFrames_recording [OF assms(2,3) ff]
  proof
    assume o: "isRecording w1 \<and> written w1 = written w \<and> segmentIndex w1 = segmentIndex w
            \<and> opts w1 = opts w
            \<and> segmentBuffers w1 = segmentBuffers w @ take (appendedBeforeFlush env fs w) fs"
    then have "flushOf env w1 [] = [(nextPath env w, segmentWav w (take k fs))]"
      using assms(3) by (simp add: flushOf_def nextPath_def segmentWav_def segmentPath_def k_def)
    with o fb have "written (finallyBlock env w1)
        = written w @ (nextPath env w, segmentWav w (take k fs)) # []"
      by simp
    then show ?thesis by (auto simp: filesAfter_def)
  next
    assume "opts w1 = opts w \<and> segmentIndex w < segmentIndex w1
            \<and> (\<exists>rest. written w1 = written w
                   @ (nextPath env w, segmentWav w (take (appendedBeforeFlush env fs w) fs)) # rest
                 \<and> filesAfter env w (segmentIndex w + 1) rest)"
    then obtain rest where
      a: "opts w1 = opts w" "segmentIndex w < segmentIndex w1"
         "written w1 = written w @ (nextPath env w, segmentWav w (take k fs)) # rest"
         "filesAfter env w (segmentIndex w + 1) rest"
      by (auto simp: k_def)
    have ne: "fs \<noteq> []"
    proof
      assume "fs = []"
      with ff have "w1 = w" by simp
      with a(2) show False by simp
    qed
    have "filesAfter env w1 (segmentIndex w + 1) (flushOf env w1 [])"
      using a(2) by (intro filesAfter_flushOf) simp
    then have "filesAfter env w (segmentIndex w + 1) (flushOf env w1 [])"
      using filesAfter_mono [OF _ a(1), of env "segmentIndex w + 1" "flushOf env w1 []" "segmentIndex w + 1"]
      by simp
    with a fb have "written (finallyBlock env w1)
        = written w @ (nextPath env w, segmentWav w (take k fs))
            # (if isRecording w1 then rest @ flushOf env w1 [] else rest)
      \<and> filesAfter env w (segmentIndex w + 1) (if isRecording w1 then rest @ flushOf env w1 [] else rest)"
      by (simp add: filesAfter_append)
    with ne show ?thesis by blast
  qed
  have short: "fs = []" if "length (sampleQueue (framing w)) < 512"
    using that by (simp add: fs_def queuedFrames_def chop512_short)
  from main obtain rest where
    r: "written (finallyBlock env w1) = written w @ (nextPath env w, segmentWav w (take k fs)) # rest"
       "filesAfter env w (segmentIndex w + 1) rest" "fs = [] \<longrightarrow> rest = []"
    by blast
  have w0: "length (sampleQueue (framing w)) < 512
      \<longrightarrow> written (stop env w) = written w @ [(nextPath env w, segmentWav w [])]"
    using r(1,3) short sw(1) by simp
  have p2: "written (stop env w)
      = written (finallyBlock env (snd (forFrames (processFrame env) (queuedFrames w) w)))"
    using sw(1) ff by (simp add: fs_def)
  have e: "\<exists>rest.
             written (stop env w)
               = written w
                   @ (nextPath env w,
                      segmentWav w (take (appendedBeforeFlush env (queuedFrames w) w) (queuedFrames w)))
                   # rest
           \<and> filesAfter env w (segmentIndex w + 1) rest"
    using r(1,2) sw(1) unfolding k_def fs_def by (intro exI [of _ rest]) simp
  from w0 p2 e sw(2,3) show ?thesis by (intro conjI)
qed

theorem stop_flushes_recording_witness:
  "running recordingController \<and> isRecording recordingController
   \<and> (\<forall>wav. writeOk (testEnv diskOk) (nextPath (testEnv diskOk) recordingController) wav)
   \<and> length (sampleQueue (framing recordingController)) < 512
   \<and> written (stop (testEnv diskOk) recordingController)
       = written recordingController
           @ [(nextPath (testEnv diskOk) recordingController, segmentWav recordingController [])]
   \<and> \<not> running (stop (testEnv diskOk) recordingController)
   \<and> running midChunkController \<and> isRecording midChunkController
   \<and> (\<forall>wav. writeOk (testEnv diskOk) (nextPath (testEnv diskOk) midChunkController) wav)
   \<and> queuedFrames midChunkController = [quietFrame, loudFrame, loudFrame]
   \<and> (\<exists>rest.
         written (stop (testEnv diskOk) midChunkController)
           = written midChunkController
               @ (nextPath (testEnv diskOk) midChunkController,
                  segmentWav midChunkController
                    (take (appendedBeforeFlush (testEnv diskOk) (queuedFrames midChunkController)
                             midChunkController)
                       (queuedFrames midChunkController)))
               # rest
       \<and> filesAfter (testEnv diskOk) midChunkController (segmentIndex midChunkController + 1) rest)
   \<and> \<not> running (stop (testEnv diskOk) midChunkController)"
proof -
  have a: "running recordingController" "isRecording recordingController"
    "length (sampleQueue (framing recordingController)) < 512"
    by (simp_all add: recordingController_def createVADController_def framer0_def)
  have b: "running midChunkController" "isRecording midChunkController"
    "queuedFrames midChunkController = [quietFrame, loudFrame, loudFrame]"
    by (simp_all add: controller_defs frame_simps midChunkController_def queuedFrames_def
        chop512.simps)
  have ok: "\<forall>wav. writeOk (testEnv diskOk) p wav" for p
    by (simp add: testEnv_def diskOk_def)
  show ?thesis
    using stop_flushes_recording [OF a(1,2) ok] stop_flushes_recording [OF b(1,2) ok] a b ok
    by blast
qed

end
